theory Spec2Isabelle
  imports Complex_Main "HOL-Library.AList"
begin

section \<open>SpineDebugRenderer: the debug overlay of a spine object\<close>

text \<open>
  The embedding follows \<^verbatim>\<open>packages/base/src/SpineDebugRenderer.ts\<close>.
  JavaScript numbers are modelled as reals; every place where the source can produce
  \<^verbatim>\<open>undefined\<close> or \<^verbatim>\<open>NaN\<close> (an array read out of range, a division by zero under
  \<^verbatim>\<open>Math.acos\<close>) is written out, with \<open>None\<close> for \<^verbatim>\<open>undefined\<close>.
  Objects live in a store indexed by references, since the registration map is keyed by
  object identity and the drawing surfaces are shared between the map and the scene graph.
\<close>

subsection \<open>Pose data, owned by the animation runtime\<close>

type_synonym ref = nat

text \<open>The enumeration of \<^verbatim>\<open>core/AttachmentType\<close>; only the distinctness of its members is used.\<close>

datatype AttachmentType = Region | BoundingBox | Mesh | LinkedMesh | Path | Point | Clipping

text \<open>
  An attachment. \<open>computeWorldVertices\<close> stands for the runtime's method of that name in the
  current pose: the numbers it writes, as a function of the attachment's \<open>offset\<close> array.
  \<open>updateOffset\<close> stands for the optional method \<^verbatim>\<open>updateOffset?: () => void\<close>:
  \<open>None\<close> when the runtime version has no such method, otherwise the offsets it stores.
\<close>

record Attachment =
  atype :: AttachmentType
  worldVerticesLength :: nat
  computeWorldVertices :: "real list \<Rightarrow> real list"
  triangles :: "nat list"
  hullLength :: int
  closed_path :: bool
  offset :: "real list"
  updateOffset :: "real list option"

record Bone =
  data_name :: string
  data_parent :: "nat option"
  data_length :: real
  matrix_a :: real
  matrix_b :: real
  matrix_tx :: real
  matrix_ty :: real

record Slot =
  bone_active :: bool
  getAttachment :: "Attachment option"

text \<open>
  What \<^verbatim>\<open>new SkeletonBoundsBase().update(skeleton, true)\<close> yields for the pose; the class is
  defined outside this file, so its result is part of the input.
\<close>

record SkeletonBounds =
  minX :: real
  minY :: real
  getWidth :: real
  getHeight :: real
  polygons :: "real list list"

record Skeleton =
  skeleton_x :: real
  skeleton_y :: real
  skeleton_bones :: "Bone list"
  skeleton_slots :: "Slot list"
  skeleton_bounds :: SkeletonBounds

subsection \<open>Display objects of the scene graph\<close>

text \<open>The calls a Graphics object has received since it was last cleared.\<close>

datatype command =
    LineStyle real nat real
  | BeginFill nat real
  | EndFill
  | MoveTo "real option" "real option"
  | LineTo "real option" "real option"
  | BezierCurveTo "real option" "real option" "real option" "real option" "real option" "real option"
  | DrawRect real real real real
  | DrawCircle "real option" "real option" real
  | DrawPolygon "real option list"

text \<open>
  One record serves for Container, Graphics and the spine object itself (a Container that
  carries a skeleton); a field an object does not use keeps its initial value.
\<close>

record DisplayObject =
  children :: "ref list"
  parent :: "ref option"
  destroyed :: bool
  commands :: "command list"
  pos_x :: real
  pos_y :: real
  pivot_y :: real
  rotation :: real
  scale_x :: real
  scale_y :: real
  skeleton :: Skeleton

record world =
  objs :: "ref \<Rightarrow> DisplayObject"
  next_ref :: ref
  console :: "string list"

datatype error = TypeError | Error string

text \<open>\<open>Diverge\<close>: the recursive destruction of a display tree did not finish within its bound.\<close>

datatype outcome = Normal | Throw error | Diverge

definition no_bounds :: SkeletonBounds where
  "no_bounds = \<lparr>minX = 0, minY = 0, getWidth = 0, getHeight = 0, polygons = []\<rparr>"

definition no_skeleton :: Skeleton where
  "no_skeleton = \<lparr>skeleton_x = 0, skeleton_y = 0, skeleton_bones = [], skeleton_slots = [],
     skeleton_bounds = no_bounds\<rparr>"

text \<open>The state of a display object right after \<^verbatim>\<open>new Container()\<close> or \<^verbatim>\<open>new Graphics()\<close>.\<close>

definition blank :: DisplayObject where
  "blank = \<lparr>children = [], parent = None, destroyed = False, commands = [],
     pos_x = 0, pos_y = 0, pivot_y = 0, rotation = 0, scale_x = 1, scale_y = 1,
     skeleton = no_skeleton\<rparr>"

definition upd :: "ref \<Rightarrow> (DisplayObject \<Rightarrow> DisplayObject) \<Rightarrow> world \<Rightarrow> world" where
  "upd r f w = w\<lparr>objs := (objs w)(r := f (objs w r))\<rparr>"

definition new_object :: "world \<Rightarrow> ref \<times> world" where
  "new_object w = (next_ref w, w\<lparr>objs := (objs w)(next_ref w := blank), next_ref := Suc (next_ref w)\<rparr>)"

text \<open>\<^verbatim>\<open>parent.removeChild(child)\<close>: a child that is not in the list is left alone.\<close>

definition removeChild :: "ref \<Rightarrow> ref \<Rightarrow> world \<Rightarrow> world" where
  "removeChild p c w =
     (if c \<in> set (children (objs w p))
      then upd p (\<lambda>ob. ob\<lparr>children := remove1 c (children ob)\<rparr>) (upd c (\<lambda>ob. ob\<lparr>parent := None\<rparr>) w)
      else w)"

text \<open>\<^verbatim>\<open>parent.addChild(child)\<close>: the child leaves its former parent first.\<close>

definition addChild :: "ref \<Rightarrow> ref \<Rightarrow> world \<Rightarrow> world" where
  "addChild p c w =
     (let w1 = (case parent (objs w c) of None \<Rightarrow> w | Some q \<Rightarrow> removeChild q c w);
          w2 = upd c (\<lambda>ob. ob\<lparr>parent := Some p\<rparr>) w1
      in upd p (\<lambda>ob. ob\<lparr>children := children ob @ [c]\<rparr>) w2)"

text \<open>A drawing call on a Graphics object, and \<^verbatim>\<open>clear()\<close>.\<close>

definition draw :: "ref \<Rightarrow> command \<Rightarrow> world \<Rightarrow> world" where
  "draw g c w = upd g (\<lambda>ob. ob\<lparr>commands := commands ob @ [c]\<rparr>) w"

definition clear :: "ref \<Rightarrow> world \<Rightarrow> world" where
  "clear g w = upd g (\<lambda>ob. ob\<lparr>commands := []\<rparr>) w"

text \<open>
  \<^verbatim>\<open>obj.destroy({children: true, ...})\<close>: the object leaves its parent, is marked destroyed,
  gives up its children, and the former children are destroyed in turn. The first argument
  bounds the depth of the recursion; \<open>None\<close> means the bound was reached.
\<close>

fun destroy :: "nat \<Rightarrow> ref \<Rightarrow> world \<Rightarrow> world option"
  and destroy_all :: "nat \<Rightarrow> ref list \<Rightarrow> world \<Rightarrow> world option" where
  "destroy 0 r w = None"
| "destroy (Suc n) r w =
     (let w1 = (case parent (objs w r) of None \<Rightarrow> w | Some p \<Rightarrow> removeChild p r w);
          w2 = upd r (\<lambda>ob. ob\<lparr>parent := None, destroyed := True\<rparr>) w1;
          oldChildren = children (objs w2 r);
          w3 = fold (\<lambda>c. upd c (\<lambda>ob. ob\<lparr>parent := None\<rparr>)) oldChildren w2;
          w4 = upd r (\<lambda>ob. ob\<lparr>children := []\<rparr>) w3
      in destroy_all n oldChildren w4)"
| "destroy_all n [] w = Some w"
| "destroy_all n (c # cs) w =
     (case destroy n c w of None \<Rightarrow> None | Some w' \<Rightarrow> destroy_all n cs w')"

subsection \<open>The renderer\<close>

record DebugDisplayObjects =
  bones :: ref
  skeletonXY :: ref
  regionAttachmentsShape :: ref
  meshTrianglesLine :: ref
  meshHullLine :: ref
  clippingPolygon :: ref
  boundingBoxesRect :: ref
  boundingBoxesCircle :: ref
  boundingBoxesPolygon :: ref
  pathsCurve :: ref
  pathsLine :: ref
  parentDebugContainer :: ref

text \<open>
  \<open>registeredSpines\<close> is the JavaScript Map as the list of its entries in insertion order:
  \<^verbatim>\<open>has\<close> and \<^verbatim>\<open>get\<close> are \<open>map_of\<close>, \<^verbatim>\<open>set\<close> is \<open>AList.update\<close>, \<^verbatim>\<open>delete\<close> is
  \<open>AList.delete\<close>.
\<close>

record SpineDebugRenderer =
  registeredSpines :: "(ref \<times> DebugDisplayObjects) list"
  drawDebug :: bool
  drawMeshHull :: bool
  drawMeshTriangles :: bool
  drawBones :: bool
  drawPaths :: bool
  drawBoundingBoxes :: bool
  drawClipping :: bool
  drawRegionAttachments :: bool
  lineWidth :: real
  regionAttachmentsColor :: nat
  meshHullColor :: nat
  meshTrianglesColor :: nat
  clippingPolygonColor :: nat
  boundingBoxesRectColor :: nat
  boundingBoxesPolygonColor :: nat
  boundingBoxesCircleColor :: nat
  pathsCurveColor :: nat
  pathsLineColor :: nat
  skeletonXYColor :: nat
  bonesColor :: nat

text \<open>The renderer as its field initialisers leave it.\<close>

definition new_SpineDebugRenderer :: SpineDebugRenderer where
  "new_SpineDebugRenderer = \<lparr>registeredSpines = [],
     drawDebug = True, drawMeshHull = True, drawMeshTriangles = True, drawBones = True,
     drawPaths = True, drawBoundingBoxes = True, drawClipping = True,
     drawRegionAttachments = True,
     lineWidth = 1, regionAttachmentsColor = 0x0078ff, meshHullColor = 0x0078ff,
     meshTrianglesColor = 0xffcc00, clippingPolygonColor = 0xff00ff,
     boundingBoxesRectColor = 0x00ff00, boundingBoxesPolygonColor = 0x00ff00,
     boundingBoxesCircleColor = 0x00ff00, pathsCurveColor = 0xff0000,
     pathsLineColor = 0xff00ff, skeletonXYColor = 0xff0000, bonesColor = 0x00eecc\<rparr>"

definition warn :: "string \<Rightarrow> world \<Rightarrow> world" where
  "warn msg w = w\<lparr>console := console w @ [msg]\<rparr>"

definition registerSpine ::
  "SpineDebugRenderer \<Rightarrow> ref \<Rightarrow> world \<Rightarrow> outcome \<times> SpineDebugRenderer \<times> world" where
  "registerSpine this spine w =
     (let w0 = (if map_of (registeredSpines this) spine \<noteq> None
                then warn ''SpineDebugRenderer.registerSpine() - this spine is already registered!'' w
                else w);
          (pdc, w1) = new_object w0;
          (bn, w2) = new_object w1;
          (sxy, w3) = new_object w2;
          (ras, w4) = new_object w3;
          (mtl, w5) = new_object w4;
          (mhl, w6) = new_object w5;
          (cp, w7) = new_object w6;
          (bbr, w8) = new_object w7;
          (bbc, w9) = new_object w8;
          (bbp, w10) = new_object w9;
          (pc, w11) = new_object w10;
          (pl, w12) = new_object w11;
          debugDisplayObjects = \<lparr>bones = bn, skeletonXY = sxy, regionAttachmentsShape = ras,
            meshTrianglesLine = mtl, meshHullLine = mhl, clippingPolygon = cp,
            boundingBoxesRect = bbr, boundingBoxesCircle = bbc, boundingBoxesPolygon = bbp,
            pathsCurve = pc, pathsLine = pl, parentDebugContainer = pdc\<rparr>;
          w13 = fold (addChild (parentDebugContainer debugDisplayObjects))
                  [bones debugDisplayObjects, skeletonXY debugDisplayObjects,
                   regionAttachmentsShape debugDisplayObjects,
                   meshTrianglesLine debugDisplayObjects, meshHullLine debugDisplayObjects,
                   clippingPolygon debugDisplayObjects, boundingBoxesRect debugDisplayObjects,
                   boundingBoxesCircle debugDisplayObjects,
                   boundingBoxesPolygon debugDisplayObjects,
                   pathsCurve debugDisplayObjects, pathsLine debugDisplayObjects] w12;
          w14 = addChild spine (parentDebugContainer debugDisplayObjects) w13
      in (Normal,
          this\<lparr>registeredSpines := AList.update spine debugDisplayObjects (registeredSpines this)\<rparr>,
          w14))"

text \<open>
  \<^verbatim>\<open>get\<close> of an absent key is \<^verbatim>\<open>undefined\<close>, and reading \<^verbatim>\<open>parentDebugContainer\<close> from it
  throws a TypeError.
\<close>

definition unregisterSpine ::
  "SpineDebugRenderer \<Rightarrow> ref \<Rightarrow> world \<Rightarrow> outcome \<times> SpineDebugRenderer \<times> world" where
  "unregisterSpine this spine w =
     (let w0 = (if map_of (registeredSpines this) spine = None
                then warn ''SpineDebugRenderer.unregisterSpine() - spine is not registered, can't unregister!'' w
                else w)
      in case map_of (registeredSpines this) spine of
           None \<Rightarrow> (Throw TypeError, this, w0)
         | Some debugDisplayObjects \<Rightarrow>
             (case destroy (next_ref w0) (parentDebugContainer debugDisplayObjects) w0 of
                None \<Rightarrow> (Diverge, this, w0)
              | Some w1 \<Rightarrow>
                  (Normal,
                   this\<lparr>registeredSpines := AList.delete spine (registeredSpines this)\<rparr>, w1)))"

subsection \<open>Arrays and sequences of drawing calls\<close>

text \<open>Reading an array at an index: \<open>None\<close> is \<^verbatim>\<open>undefined\<close> (any index outside the array).\<close>

definition at_index :: "'a list \<Rightarrow> int \<Rightarrow> 'a option" where
  "at_index xs i = (if 0 \<le> i \<and> i < int (length xs) then Some (xs ! nat i) else None)"

text \<open>
  \<^verbatim>\<open>new Float32Array(n)\<close> after the runtime has written the numbers \<open>vs\<close> into it from
  index 0: the array keeps its length, unwritten cells stay 0.
\<close>

definition written :: "nat \<Rightarrow> real list \<Rightarrow> real list" where
  "written n vs = take n vs @ replicate (n - length vs) 0"

text \<open>Drawing calls in program order, each with the surface that receives it.\<close>

definition draws :: "(ref \<times> command) list \<Rightarrow> world \<Rightarrow> world" where
  "draws cs w = fold (\<lambda>(g, c). draw g c) cs w"

subsection \<open>drawBonesFunc\<close>

text \<open>
  \<^verbatim>\<open>Math.acos(num / den) || 0\<close>: a zero denominator gives \<^verbatim>\<open>NaN\<close> or an infinity, an
  argument outside \<open>[-1, 1]\<close> gives \<^verbatim>\<open>NaN\<close>, and \<^verbatim>\<open>NaN || 0\<close> is 0.
\<close>

definition acos_or_0 :: "real \<Rightarrow> real \<Rightarrow> real" where
  "acos_or_0 num den =
     (if den = 0 then 0
      else if num / den < - 1 \<or> 1 < num / den then 0
      else arccos (num / den))"

definition bone_rotation :: "real \<Rightarrow> real \<Rightarrow> real \<Rightarrow> real \<Rightarrow> real \<Rightarrow> real" where
  "bone_rotation starX starY endX endY B =
     (let rad = pi / 180 in
      if starX < endX \<and> starY < endY then - B + 180 * rad
      else if starX > endX \<and> starY < endY then 180 * rad + B
      else if starX > endX \<and> starY > endY then - B
      else if starX < endX \<and> starY > endY then B
      else if starY = endY \<and> starX < endX then 90 * rad
      else if starY = endY \<and> starX > endX then - 90 * rad
      else if starX = endX \<and> starY < endY then 180 * rad
      else if starX = endX \<and> starY > endY then 0
      else 0)"

text \<open>The part of the loop body after the two \<^verbatim>\<open>continue\<close> tests: one Graphics per bone.\<close>

definition drawBone ::
  "nat \<Rightarrow> ref \<Rightarrow> real \<Rightarrow> real \<Rightarrow> real \<Rightarrow> real \<Rightarrow> real \<Rightarrow> real \<Rightarrow> real \<Rightarrow> real \<Rightarrow> world \<Rightarrow> world" where
  "drawBone color bonesContainer width scale starX starY endX endY c B w =
     (let (gp, w1) = new_object w;
          w2 = addChild bonesContainer gp w1;
          refRation = c / 50 / scale;
          w3 = draws [(gp, BeginFill color 1),
                      (gp, DrawPolygon (map Some [0, 0, 0 - refRation, c - refRation * 3, 0,
                             c - refRation, 0 + refRation, c - refRation * 3])),
                      (gp, EndFill)] w2;
          w4 = upd gp (\<lambda>ob. ob\<lparr>pos_x := starX, pos_y := starY, pivot_y := c\<rparr>) w3;
          w5 = upd gp (\<lambda>ob. ob\<lparr>rotation := bone_rotation starX starY endX endY B\<rparr>) w4
      in draws [(gp, LineStyle (width + refRation / 2.4) color 1),
                (gp, BeginFill 0x000000 0.6),
                (gp, DrawCircle (Some 0) (Some c) (refRation * 1.2)),
                (gp, EndFill)] w5)"

fun drawBones_loop ::
  "nat \<Rightarrow> ref \<Rightarrow> real \<Rightarrow> real \<Rightarrow> real \<Rightarrow> real \<Rightarrow> Bone list \<Rightarrow> world \<Rightarrow> world" where
  "drawBones_loop color bonesContainer width scale skeletonX skeletonY [] w = w"
| "drawBones_loop color bonesContainer width scale skeletonX skeletonY (bone # rest) w =
     (let boneLen = data_length bone;
          starX = skeletonX + matrix_tx bone;
          starY = skeletonY + matrix_ty bone;
          endX = skeletonX + boneLen * matrix_a bone + matrix_tx bone;
          endY = skeletonY + boneLen * matrix_b bone + matrix_ty bone
      in if data_name bone = ''root'' \<or> data_parent bone = None
         then drawBones_loop color bonesContainer width scale skeletonX skeletonY rest w
         else
           (let dx = \<bar>starX - endX\<bar>;
                dy = \<bar>starY - endY\<bar>;
                a2 = dx ^ 2;
                b = dy;
                b2 = dy ^ 2;
                c = sqrt (a2 + b2);
                c2 = c ^ 2;
                B = acos_or_0 (c2 + b2 - a2) (2 * b * c)
            in if c = 0
               then drawBones_loop color bonesContainer width scale skeletonX skeletonY rest w
               else drawBones_loop color bonesContainer width scale skeletonX skeletonY rest
                      (drawBone color bonesContainer width scale starX starY endX endY c B w)))"

definition drawBonesFunc ::
  "SpineDebugRenderer \<Rightarrow> ref \<Rightarrow> DebugDisplayObjects \<Rightarrow> real \<Rightarrow> real \<Rightarrow> world \<Rightarrow> world" where
  "drawBonesFunc this spine debugDisplayObjects width scale w =
     (let skel = skeleton (objs w spine);
          skeletonX = skeleton_x skel;
          skeletonY = skeleton_y skel;
          w1 = draw (skeletonXY debugDisplayObjects)
                 (LineStyle width (skeletonXYColor this) 1) w;
          w2 = drawBones_loop (bonesColor this) (bones debugDisplayObjects) width scale
                 skeletonX skeletonY (skeleton_bones skel) w1;
          startDotSize = width * 3
      in draws
           [(skeletonXY debugDisplayObjects,
               MoveTo (Some (skeletonX - startDotSize)) (Some (skeletonY - startDotSize))),
            (skeletonXY debugDisplayObjects,
               LineTo (Some (skeletonX + startDotSize)) (Some (skeletonY + startDotSize))),
            (skeletonXY debugDisplayObjects,
               MoveTo (Some (skeletonX + startDotSize)) (Some (skeletonY - startDotSize))),
            (skeletonXY debugDisplayObjects,
               LineTo (Some (skeletonX - startDotSize)) (Some (skeletonY + startDotSize)))] w2)"

subsection \<open>drawRegionAttachmentsFunc\<close>

definition set_slot :: "ref \<Rightarrow> nat \<Rightarrow> Slot \<Rightarrow> world \<Rightarrow> world" where
  "set_slot spine i slot w =
     upd spine (\<lambda>ob. ob\<lparr>skeleton := (skeleton ob)\<lparr>skeleton_slots :=
       (skeleton_slots (skeleton ob))[i := slot]\<rparr>\<rparr>) w"

text \<open>
  \<^verbatim>\<open>regionAttachment?.updateOffset()\<close> guards the attachment, not the method: an attachment
  without the method makes the call throw a TypeError. The method stores the recomputed
  offsets in the attachment, which is slot \<open>i\<close>'s attachment of the spine's skeleton.
\<close>

fun drawRegionAttachments_loop ::
  "ref \<Rightarrow> ref \<Rightarrow> nat \<Rightarrow> Slot list \<Rightarrow> world \<Rightarrow> outcome \<times> world" where
  "drawRegionAttachments_loop spine shape i [] w = (Normal, w)"
| "drawRegionAttachments_loop spine shape i (slot # rest) w =
     (case getAttachment slot of
        None \<Rightarrow> drawRegionAttachments_loop spine shape (Suc i) rest w
      | Some attachment \<Rightarrow>
          if atype attachment \<noteq> Region
          then drawRegionAttachments_loop spine shape (Suc i) rest w
          else
            (case updateOffset attachment of
               None \<Rightarrow> (Throw TypeError, w)
             | Some off \<Rightarrow>
                 (let regionAttachment = attachment\<lparr>offset := off\<rparr>;
                      w1 = set_slot spine i (slot\<lparr>getAttachment := Some regionAttachment\<rparr>) w;
                      vertices = written 8
                        (computeWorldVertices regionAttachment (offset regionAttachment));
                      w2 = draw shape (DrawPolygon (map Some (take 8 vertices))) w1
                  in drawRegionAttachments_loop spine shape (Suc i) rest w2)))"

definition drawRegionAttachmentsFunc ::
  "SpineDebugRenderer \<Rightarrow> ref \<Rightarrow> DebugDisplayObjects \<Rightarrow> real \<Rightarrow> world \<Rightarrow> outcome \<times> world" where
  "drawRegionAttachmentsFunc this spine debugDisplayObjects width w =
     (let slots = skeleton_slots (skeleton (objs w spine));
          w1 = draw (regionAttachmentsShape debugDisplayObjects)
                 (LineStyle width (regionAttachmentsColor this) 1) w
      in drawRegionAttachments_loop spine (regionAttachmentsShape debugDisplayObjects) 0 slots w1)"

subsection \<open>drawMeshHullAndMeshTriangles\<close>

text \<open>
  \<^verbatim>\<open>vertices[triangles[i] * 2 + k]\<close>: a triangle index read past the end of \<^verbatim>\<open>triangles\<close> is
  \<^verbatim>\<open>undefined\<close>, its double is \<^verbatim>\<open>NaN\<close>, and the array read at \<^verbatim>\<open>NaN\<close> is \<^verbatim>\<open>undefined\<close>.
\<close>

definition vertex_of :: "real list \<Rightarrow> nat option \<Rightarrow> int \<Rightarrow> real option" where
  "vertex_of vertices t k =
     (case t of None \<Rightarrow> None | Some n \<Rightarrow> at_index vertices (int n * 2 + k))"

definition drawTriangle ::
  "ref \<Rightarrow> real list \<Rightarrow> nat option \<Rightarrow> nat option \<Rightarrow> nat option \<Rightarrow> world \<Rightarrow> world" where
  "drawTriangle line vertices t1 t2 t3 w =
     draws [(line, MoveTo (vertex_of vertices t1 0) (vertex_of vertices t1 1)),
            (line, LineTo (vertex_of vertices t2 0) (vertex_of vertices t2 1)),
            (line, LineTo (vertex_of vertices t3 0) (vertex_of vertices t3 1))] w"

fun triangles_loop :: "ref \<Rightarrow> real list \<Rightarrow> nat list \<Rightarrow> world \<Rightarrow> world" where
  "triangles_loop line vertices [] w = w"
| "triangles_loop line vertices [t1] w = drawTriangle line vertices (Some t1) None None w"
| "triangles_loop line vertices [t1, t2] w =
     drawTriangle line vertices (Some t1) (Some t2) None w"
| "triangles_loop line vertices (t1 # t2 # t3 # rest) w =
     triangles_loop line vertices rest
       (drawTriangle line vertices (Some t1) (Some t2) (Some t3) w)"

function hull_loop ::
  "ref \<Rightarrow> real list \<Rightarrow> int \<Rightarrow> int \<Rightarrow> real option \<Rightarrow> real option \<Rightarrow> world \<Rightarrow> world" where
  "hull_loop line vertices i len lastX lastY w =
     (if i < len
      then (let x = at_index vertices i;
                y = at_index vertices (i + 1)
            in hull_loop line vertices (i + 2) len x y
                 (draws [(line, MoveTo x y), (line, LineTo lastX lastY)] w))
      else w)"
  by pat_completeness auto
termination
  by (relation "measure (\<lambda>(line, vertices, i, len, lastX, lastY, w). nat (len - i))") auto

declare hull_loop.simps [simp del]

fun drawMesh_loop ::
  "bool \<Rightarrow> bool \<Rightarrow> ref \<Rightarrow> ref \<Rightarrow> Slot list \<Rightarrow> world \<Rightarrow> world" where
  "drawMesh_loop meshTriangles meshHull trianglesLine hullLine [] w = w"
| "drawMesh_loop meshTriangles meshHull trianglesLine hullLine (slot # rest) w =
     (if \<not> bone_active slot
      then drawMesh_loop meshTriangles meshHull trianglesLine hullLine rest w
      else
        (case getAttachment slot of
           None \<Rightarrow> drawMesh_loop meshTriangles meshHull trianglesLine hullLine rest w
         | Some attachment \<Rightarrow>
             if atype attachment \<noteq> Mesh
             then drawMesh_loop meshTriangles meshHull trianglesLine hullLine rest w
             else
               (let vertices = written (worldVerticesLength attachment)
                      (computeWorldVertices attachment (offset attachment));
                    w1 = (if meshTriangles
                          then triangles_loop trianglesLine vertices (triangles attachment) w
                          else w);
                    w2 = (if meshHull \<and> hullLength attachment > 0
                          then (let hullLength' = (hullLength attachment div 2) * 2
                                in hull_loop hullLine vertices 0 hullLength'
                                     (at_index vertices (hullLength' - 2))
                                     (at_index vertices (hullLength' - 1)) w1)
                          else w1)
                in drawMesh_loop meshTriangles meshHull trianglesLine hullLine rest w2)))"

definition drawMeshHullAndMeshTriangles ::
  "SpineDebugRenderer \<Rightarrow> ref \<Rightarrow> DebugDisplayObjects \<Rightarrow> real \<Rightarrow> world \<Rightarrow> world" where
  "drawMeshHullAndMeshTriangles this spine debugDisplayObjects width w =
     (let slots = skeleton_slots (skeleton (objs w spine));
          w1 = draw (meshHullLine debugDisplayObjects)
                 (LineStyle width (meshHullColor this) 1) w;
          w2 = draw (meshTrianglesLine debugDisplayObjects)
                 (LineStyle width (meshTrianglesColor this) 1) w1
      in drawMesh_loop (drawMeshTriangles this) (drawMeshHull this)
           (meshTrianglesLine debugDisplayObjects) (meshHullLine debugDisplayObjects) slots w2)"

subsection \<open>drawClippingFunc\<close>

fun drawClipping_loop :: "ref \<Rightarrow> Slot list \<Rightarrow> world \<Rightarrow> world" where
  "drawClipping_loop polygon [] w = w"
| "drawClipping_loop polygon (slot # rest) w =
     (if \<not> bone_active slot then drawClipping_loop polygon rest w
      else
        (case getAttachment slot of
           None \<Rightarrow> drawClipping_loop polygon rest w
         | Some attachment \<Rightarrow>
             if atype attachment \<noteq> Clipping then drawClipping_loop polygon rest w
             else
               (let nn = worldVerticesLength attachment;
                    world_vertices = written nn
                      (computeWorldVertices attachment (offset attachment))
                in drawClipping_loop polygon rest
                     (draw polygon (DrawPolygon (map Some world_vertices)) w))))"

definition drawClippingFunc ::
  "SpineDebugRenderer \<Rightarrow> ref \<Rightarrow> DebugDisplayObjects \<Rightarrow> real \<Rightarrow> world \<Rightarrow> world" where
  "drawClippingFunc this spine debugDisplayObjects width w =
     (let slots = skeleton_slots (skeleton (objs w spine));
          w1 = draw (clippingPolygon debugDisplayObjects)
                 (LineStyle width (clippingPolygonColor this) 1) w
      in drawClipping_loop (clippingPolygon debugDisplayObjects) slots w1)"

subsection \<open>drawBoundingBoxesFunc\<close>

text \<open>
  The loop over \<^verbatim>\<open>polygonVertices\<close> in steps of two: a dot per coordinate pair on the circle
  surface, and the pair pushed to \<^verbatim>\<open>paths\<close>. An odd last number is paired with \<^verbatim>\<open>undefined\<close>.
\<close>

fun polygonVertices_loop ::
  "ref \<Rightarrow> nat \<Rightarrow> real \<Rightarrow> real list \<Rightarrow> world \<Rightarrow> real option list \<times> world" where
  "polygonVertices_loop circle color dotSize [] w = ([], w)"
| "polygonVertices_loop circle color dotSize [x1] w =
     ([Some x1, None],
      draws [(circle, LineStyle 0 0 1), (circle, BeginFill color 1),
             (circle, DrawCircle (Some x1) None dotSize), (circle, EndFill)] w)"
| "polygonVertices_loop circle color dotSize (x1 # y1 # rest) w =
     (let w1 = draws [(circle, LineStyle 0 0 1), (circle, BeginFill color 1),
                      (circle, DrawCircle (Some x1) (Some y1) dotSize), (circle, EndFill)] w;
          (paths, w2) = polygonVertices_loop circle color dotSize rest w1
      in (Some x1 # Some y1 # paths, w2))"

text \<open>The inner helper \<^verbatim>\<open>drawPolygon(polygonVertices, _offset, count)\<close>.\<close>

definition drawPolygon ::
  "SpineDebugRenderer \<Rightarrow> DebugDisplayObjects \<Rightarrow> real \<Rightarrow> real list \<Rightarrow> nat \<Rightarrow> world
     \<Rightarrow> outcome \<times> world" where
  "drawPolygon this debugDisplayObjects width polygonVertices count w =
     (let w1 = draws [(boundingBoxesPolygon debugDisplayObjects,
                         LineStyle width (boundingBoxesPolygonColor this) 1),
                      (boundingBoxesPolygon debugDisplayObjects,
                         BeginFill (boundingBoxesPolygonColor this) 0.1)] w
      in if count < 3 then (Throw (Error ''Polygon must contain at least 3 vertices''), w1)
         else
           (let dotSize = width * 2;
                (paths, w2) = polygonVertices_loop (boundingBoxesCircle debugDisplayObjects)
                                (boundingBoxesCircleColor this) dotSize polygonVertices w1
            in (Normal,
                draws [(boundingBoxesPolygon debugDisplayObjects, DrawPolygon paths),
                       (boundingBoxesPolygon debugDisplayObjects, EndFill)] w2)))"

text \<open>The loop over \<^verbatim>\<open>bounds.polygons\<close>; the helper's \<^verbatim>\<open>count\<close> is \<^verbatim>\<open>polygon.length\<close>.\<close>

fun drawBoundingBoxes_loop ::
  "SpineDebugRenderer \<Rightarrow> DebugDisplayObjects \<Rightarrow> real \<Rightarrow> real list list \<Rightarrow> world
     \<Rightarrow> outcome \<times> world" where
  "drawBoundingBoxes_loop this debugDisplayObjects width [] w = (Normal, w)"
| "drawBoundingBoxes_loop this debugDisplayObjects width (polygon # rest) w =
     (case drawPolygon this debugDisplayObjects width polygon (length polygon) w of
        (Normal, w1) \<Rightarrow> drawBoundingBoxes_loop this debugDisplayObjects width rest w1
      | (failure, w1) \<Rightarrow> (failure, w1))"

definition drawBoundingBoxesFunc ::
  "SpineDebugRenderer \<Rightarrow> ref \<Rightarrow> DebugDisplayObjects \<Rightarrow> real \<Rightarrow> world \<Rightarrow> outcome \<times> world" where
  "drawBoundingBoxesFunc this spine debugDisplayObjects width w =
     (let w1 = draw (boundingBoxesRect debugDisplayObjects)
                 (LineStyle width (boundingBoxesRectColor this) 5) w;
          bounds = skeleton_bounds (skeleton (objs w1 spine));
          w2 = draw (boundingBoxesRect debugDisplayObjects)
                 (DrawRect (minX bounds) (minY bounds) (getWidth bounds) (getHeight bounds)) w1
      in drawBoundingBoxes_loop this debugDisplayObjects width (polygons bounds) w2)"

subsection \<open>drawPathsFunc\<close>

function paths_loop ::
  "ref \<Rightarrow> ref \<Rightarrow> real list \<Rightarrow> int \<Rightarrow> int \<Rightarrow> real option \<Rightarrow> real option \<Rightarrow> world \<Rightarrow> world" where
  "paths_loop curve line world_vertices ii nn x1 y1 w =
     (if ii < nn
      then (let cx1 = at_index world_vertices ii;
                cy1 = at_index world_vertices (ii + 1);
                cx2 = at_index world_vertices (ii + 2);
                cy2 = at_index world_vertices (ii + 3);
                x2 = at_index world_vertices (ii + 4);
                y2 = at_index world_vertices (ii + 5)
            in paths_loop curve line world_vertices (ii + 6) nn x2 y2
                 (draws [(curve, MoveTo x1 y1),
                         (curve, BezierCurveTo cx1 cy1 cx2 cy2 x2 y2),
                         (line, MoveTo x1 y1),
                         (line, LineTo cx1 cy1),
                         (line, MoveTo x2 y2),
                         (line, LineTo cx2 cy2)] w))
      else w)"
  by pat_completeness auto
termination
  by (relation "measure (\<lambda>(curve, line, world_vertices, ii, nn, x1, y1, w). nat (nn - ii))") auto

declare paths_loop.simps [simp del]

fun drawPaths_loop :: "ref \<Rightarrow> ref \<Rightarrow> Slot list \<Rightarrow> world \<Rightarrow> world" where
  "drawPaths_loop curve line [] w = w"
| "drawPaths_loop curve line (slot # rest) w =
     (if \<not> bone_active slot then drawPaths_loop curve line rest w
      else
        (case getAttachment slot of
           None \<Rightarrow> drawPaths_loop curve line rest w
         | Some attachment \<Rightarrow>
             if atype attachment \<noteq> Path then drawPaths_loop curve line rest w
             else
               (let nn = int (worldVerticesLength attachment);
                    world_vertices = written (worldVerticesLength attachment)
                      (computeWorldVertices attachment (offset attachment));
                    x1 = at_index world_vertices 2;
                    y1 = at_index world_vertices 3;
                    w1 = (if closed_path attachment
                          then (let cx1 = at_index world_vertices 0;
                                    cy1 = at_index world_vertices 1;
                                    cx2 = at_index world_vertices (nn - 2);
                                    cy2 = at_index world_vertices (nn - 1);
                                    x2 = at_index world_vertices (nn - 4);
                                    y2 = at_index world_vertices (nn - 3)
                                in draws [(curve, MoveTo x1 y1),
                                          (curve, BezierCurveTo cx1 cy1 cx2 cy2 x2 y2),
                                          (line, MoveTo x1 y1),
                                          (line, LineTo cx1 cy1),
                                          (line, MoveTo x2 y2),
                                          (line, LineTo cx2 cy2)] w)
                          else w)
                in drawPaths_loop curve line rest
                     (paths_loop curve line world_vertices 4 (nn - 4) x1 y1 w1))))"

definition drawPathsFunc ::
  "SpineDebugRenderer \<Rightarrow> ref \<Rightarrow> DebugDisplayObjects \<Rightarrow> real \<Rightarrow> world \<Rightarrow> world" where
  "drawPathsFunc this spine debugDisplayObjects width w =
     (let slots = skeleton_slots (skeleton (objs w spine));
          w1 = draw (pathsCurve debugDisplayObjects)
                 (LineStyle width (pathsCurveColor this) 1) w;
          w2 = draw (pathsLine debugDisplayObjects)
                 (LineStyle width (pathsLineColor this) 1) w1
      in drawPaths_loop (pathsCurve debugDisplayObjects) (pathsLine debugDisplayObjects)
           slots w2)"

subsection \<open>renderDebug\<close>

text \<open>
  The loop \<^verbatim>\<open>for (len = children.length; len > 0; len--) children[len - 1].destroy(...)\<close>:
  the child list is read again at every step, and a missing element would make the call on
  \<^verbatim>\<open>undefined\<close> throw.
\<close>

fun destroy_children_loop :: "ref \<Rightarrow> nat \<Rightarrow> world \<Rightarrow> outcome \<times> world" where
  "destroy_children_loop bonesContainer 0 w = (Normal, w)"
| "destroy_children_loop bonesContainer (Suc n) w =
     (case at_index (children (objs w bonesContainer)) (int n) of
        None \<Rightarrow> (Throw TypeError, w)
      | Some child \<Rightarrow>
          (case destroy (next_ref w) child w of
             None \<Rightarrow> (Diverge, w)
           | Some w1 \<Rightarrow> destroy_children_loop bonesContainer n w1))"

definition thenDo :: "outcome \<times> world \<Rightarrow> (world \<Rightarrow> outcome \<times> world) \<Rightarrow> outcome \<times> world" where
  "thenDo res f = (case res of (Normal, w) \<Rightarrow> f w | (failure, w) \<Rightarrow> (failure, w))"

text \<open>
  The first part of \<^verbatim>\<open>renderDebug\<close> after the lookup in the registration map: the ten
  \<^verbatim>\<open>clear()\<close> calls and the loop that destroys the children of the bones container.
\<close>

definition clearSurfaces :: "DebugDisplayObjects \<Rightarrow> world \<Rightarrow> outcome \<times> world" where
  "clearSurfaces debugDisplayObjects w =
     (let w1 = fold clear
                 [skeletonXY debugDisplayObjects, regionAttachmentsShape debugDisplayObjects,
                  meshTrianglesLine debugDisplayObjects, meshHullLine debugDisplayObjects,
                  clippingPolygon debugDisplayObjects, boundingBoxesRect debugDisplayObjects,
                  boundingBoxesCircle debugDisplayObjects,
                  boundingBoxesPolygon debugDisplayObjects,
                  pathsCurve debugDisplayObjects, pathsLine debugDisplayObjects] w
      in destroy_children_loop (bones debugDisplayObjects)
           (length (children (objs w1 (bones debugDisplayObjects)))) w1)"

text \<open>\<^verbatim>\<open>spine.scale.x || spine.scale.y || 1\<close>.\<close>

definition scale_of :: "DisplayObject \<Rightarrow> real" where
  "scale_of ob = (if scale_x ob \<noteq> 0 then scale_x ob
                  else if scale_y ob \<noteq> 0 then scale_y ob else 1)"

text \<open>The second part: the conditional drawing of the categories, in the order of the source.\<close>

definition drawCategories ::
  "SpineDebugRenderer \<Rightarrow> ref \<Rightarrow> DebugDisplayObjects \<Rightarrow> world \<Rightarrow> outcome \<times> world" where
  "drawCategories this spine debugDisplayObjects w2 =
     (let scale = scale_of (objs w2 spine);
          width = lineWidth this / scale;
          w3 = (if drawBones this
                then drawBonesFunc this spine debugDisplayObjects width scale w2 else w2);
          w4 = (if drawPaths this
                then drawPathsFunc this spine debugDisplayObjects width w3 else w3);
          boxes = (if drawBoundingBoxes this
                   then drawBoundingBoxesFunc this spine debugDisplayObjects width w4
                   else (Normal, w4))
      in thenDo boxes (\<lambda>w5.
           let w6 = (if drawClipping this
                     then drawClippingFunc this spine debugDisplayObjects width w5
                     else w5);
               w7 = (if drawMeshHull this \<or> drawMeshTriangles this
                     then drawMeshHullAndMeshTriangles this spine debugDisplayObjects
                            width w6
                     else w6)
           in if drawRegionAttachments this
              then drawRegionAttachmentsFunc this spine debugDisplayObjects width w7
              else (Normal, w7)))"

definition renderFrame ::
  "SpineDebugRenderer \<Rightarrow> ref \<Rightarrow> DebugDisplayObjects \<Rightarrow> world \<Rightarrow> outcome \<times> world" where
  "renderFrame this spine debugDisplayObjects w =
     thenDo (clearSurfaces debugDisplayObjects w)
       (drawCategories this spine debugDisplayObjects)"

definition renderDebug ::
  "SpineDebugRenderer \<Rightarrow> ref \<Rightarrow> world \<Rightarrow> outcome \<times> SpineDebugRenderer \<times> world" where
  "renderDebug this spine w =
     (let (this1, w1) = (if map_of (registeredSpines this) spine = None
                         then snd (registerSpine this spine w) else (this, w))
      in case map_of (registeredSpines this1) spine of
           None \<Rightarrow> (Throw TypeError, this1, w1)
         | Some debugDisplayObjects \<Rightarrow>
             (let (res, w2) = renderFrame this1 spine debugDisplayObjects w1
              in (res, this1, w2)))"

subsection \<open>Sequences of calls on one renderer\<close>

datatype call = RegisterSpine ref | UnregisterSpine ref | RenderDebug ref

fun perform :: "call \<Rightarrow> SpineDebugRenderer \<times> world \<Rightarrow> SpineDebugRenderer \<times> world" where
  "perform (RegisterSpine spine) (this, w) = snd (registerSpine this spine w)"
| "perform (UnregisterSpine spine) (this, w) = snd (unregisterSpine this spine w)"
| "perform (RenderDebug spine) (this, w) = snd (renderDebug this spine w)"

definition perform_all ::
  "call list \<Rightarrow> SpineDebugRenderer \<times> world \<Rightarrow> SpineDebugRenderer \<times> world" where
  "perform_all calls st = fold perform calls st"

section \<open>Notions used in the statements and proofs\<close>

definition entry_at :: "ref \<Rightarrow> DebugDisplayObjects" where
  "entry_at n = \<lparr>bones = n + 1, skeletonXY = n + 2, regionAttachmentsShape = n + 3,
     meshTrianglesLine = n + 4, meshHullLine = n + 5, clippingPolygon = n + 6,
     boundingBoxesRect = n + 7, boundingBoxesCircle = n + 8, boundingBoxesPolygon = n + 9,
     pathsCurve = n + 10, pathsLine = n + 11, parentDebugContainer = n\<rparr>"

definition alloc :: "nat \<Rightarrow> world \<Rightarrow> world" where
  "alloc k w = w\<lparr>objs := (\<lambda>r. if next_ref w \<le> r \<and> r < next_ref w + k then blank else objs w r),
      next_ref := next_ref w + k\<rparr>"

definition calls_on :: "ref \<Rightarrow> (ref \<times> command) list \<Rightarrow> command list" where
  "calls_on g cs = map snd (filter (\<lambda>x. fst x = g) cs)"

text \<open>A spine object with a small pose: the only object of \<open>example_world\<close>.\<close>

definition example_skeleton :: Skeleton where
  "example_skeleton = \<lparr>skeleton_x = 0, skeleton_y = 0,
     skeleton_bones =
       [\<lparr>data_name = ''root'', data_parent = None, data_length = 0,
          matrix_a = 1, matrix_b = 0, matrix_tx = 0, matrix_ty = 0\<rparr>,
        \<lparr>data_name = ''hip'', data_parent = Some 0, data_length = 0,
          matrix_a = 1, matrix_b = 0, matrix_tx = 1, matrix_ty = 1\<rparr>,
        \<lparr>data_name = ''arm'', data_parent = Some 1, data_length = 5,
          matrix_a = 3 / 5, matrix_b = 4 / 5, matrix_tx = 1, matrix_ty = 2\<rparr>],
     skeleton_slots =
       [\<lparr>bone_active = True, getAttachment = Some
          \<lparr>atype = Region, worldVerticesLength = 8, computeWorldVertices = (\<lambda>off. off),
           triangles = [], hullLength = 0, closed_path = False,
           offset = [0, 0, 0, 0, 0, 0, 0, 0],
           updateOffset = Some [0, 0, 0, 1, 1, 1, 1, 0]\<rparr>\<rparr>,
        \<lparr>bone_active = True, getAttachment = Some
          \<lparr>atype = Mesh, worldVerticesLength = 6,
           computeWorldVertices = (\<lambda>off. [0, 0, 2, 0, 0, 2]),
           triangles = [0, 1, 2], hullLength = 6, closed_path = False,
           offset = [], updateOffset = None\<rparr>\<rparr>,
        \<lparr>bone_active = True, getAttachment = None\<rparr>],
     skeleton_bounds = \<lparr>minX = 0, minY = 0, getWidth = 4, getHeight = 3,
       polygons = [[0, 0, 4, 0, 0, 3]]\<rparr>\<rparr>"

definition example_world :: world where
  "example_world = \<lparr>objs = (\<lambda>r. blank)(0 := blank\<lparr>skeleton := example_skeleton\<rparr>),
     next_ref = 1, console = []\<rparr>"

definition paints :: "ref set \<Rightarrow> (world \<Rightarrow> world) \<Rightarrow> bool" where
  "paints S f = (\<exists>cs. fst ` set cs \<subseteq> S \<and> (\<forall>w. f w = draws cs w))"

definition paints_with :: "ref set \<Rightarrow> (world \<Rightarrow> 'a \<times> world) \<Rightarrow> bool" where
  "paints_with S f = (\<exists>cs x. fst ` set cs \<subseteq> S \<and> (\<forall>w. f w = (x, draws cs w)))"

definition set_slots :: "ref \<Rightarrow> Slot list \<Rightarrow> world \<Rightarrow> world" where
  "set_slots spine slots w =
     upd spine (\<lambda>ob. ob\<lparr>skeleton := (skeleton ob)\<lparr>skeleton_slots := slots\<rparr>\<rparr>) w"

definition refresh_offset :: "Slot \<Rightarrow> Slot" where
  "refresh_offset slot =
     (case getAttachment slot of
        None \<Rightarrow> slot
      | Some attachment \<Rightarrow>
          if atype attachment \<noteq> Region then slot
          else (case updateOffset attachment of
                  None \<Rightarrow> slot
                | Some off \<Rightarrow> slot\<lparr>getAttachment := Some (attachment\<lparr>offset := off\<rparr>)\<rparr>))"

definition surfaces :: "DebugDisplayObjects \<Rightarrow> ref list" where
  "surfaces d = [skeletonXY d, regionAttachmentsShape d, meshTrianglesLine d, meshHullLine d,
     clippingPolygon d, boundingBoxesRect d, boundingBoxesCircle d, boundingBoxesPolygon d,
     pathsCurve d, pathsLine d]"

definition entry_refs :: "ref \<Rightarrow> DebugDisplayObjects \<Rightarrow> ref list" where
  "entry_refs spine d = spine # parentDebugContainer d # bones d # surfaces d"

definition wf_entry :: "world \<Rightarrow> ref \<Rightarrow> DebugDisplayObjects \<Rightarrow> bool" where
  "wf_entry w spine d \<longleftrightarrow>
     distinct (entry_refs spine d)
   \<and> (\<forall>r \<in> set (entry_refs spine d). r < next_ref w)
   \<and> parentDebugContainer d \<in> set (children (objs w spine))
   \<and> parent (objs w (parentDebugContainer d)) = Some spine
   \<and> children (objs w (parentDebugContainer d)) = bones d # surfaces d
   \<and> parent (objs w (bones d)) = Some (parentDebugContainer d)
   \<and> (\<forall>g \<in> set (surfaces d). parent (objs w g) = Some (parentDebugContainer d)
          \<and> children (objs w g) = [])
   \<and> distinct (children (objs w (bones d)))
   \<and> (\<forall>c \<in> set (children (objs w (bones d))).
          c < next_ref w \<and> c \<notin> set (entry_refs spine d)
        \<and> parent (objs w c) = Some (bones d) \<and> children (objs w c) = [])"

definition bone_start :: "real \<Rightarrow> real \<Rightarrow> Bone \<Rightarrow> real \<times> real" where
  "bone_start skeletonX skeletonY bone =
     (skeletonX + matrix_tx bone, skeletonY + matrix_ty bone)"

definition bone_end :: "real \<Rightarrow> real \<Rightarrow> Bone \<Rightarrow> real \<times> real" where
  "bone_end skeletonX skeletonY bone =
     (skeletonX + data_length bone * matrix_a bone + matrix_tx bone,
      skeletonY + data_length bone * matrix_b bone + matrix_ty bone)"

definition segment_length :: "real \<Rightarrow> real \<Rightarrow> Bone \<Rightarrow> real" where
  "segment_length skeletonX skeletonY bone =
     sqrt (\<bar>fst (bone_start skeletonX skeletonY bone) - fst (bone_end skeletonX skeletonY bone)\<bar> ^ 2
         + \<bar>snd (bone_start skeletonX skeletonY bone) - snd (bone_end skeletonX skeletonY bone)\<bar> ^ 2)"

definition bone_drawn :: "real \<Rightarrow> real \<Rightarrow> Bone \<Rightarrow> bool" where
  "bone_drawn skeletonX skeletonY bone \<longleftrightarrow>
     data_name bone \<noteq> ''root'' \<and> data_parent bone \<noteq> None
   \<and> segment_length skeletonX skeletonY bone \<noteq> 0"

definition two_vertex_world :: world where
  "two_vertex_world = \<lparr>objs = (\<lambda>r. blank)(0 := blank\<lparr>skeleton := no_skeleton\<lparr>skeleton_bounds :=
       \<lparr>minX = 0, minY = 0, getWidth = 10, getHeight = 10, polygons = [[0, 0, 10, 10]]\<rparr>\<rparr>\<rparr>),
     next_ref = 13, console = []\<rparr>"

section \<open>Lemmas about the scene graph and the drawing routines\<close>

lemma upd_simps [simp]:
  "objs (upd r f w) = (objs w)(r := f (objs w r))"
  "next_ref (upd r f w) = next_ref w"
  "console (upd r f w) = console w"
  by (simp_all add: upd_def)

lemma alloc_simps [simp]:
  "objs (alloc k w) r = (if next_ref w \<le> r \<and> r < next_ref w + k then blank else objs w r)"
  "next_ref (alloc k w) = next_ref w + k"
  "console (alloc k w) = console w"
  by (simp_all add: alloc_def)

lemma blank_simps [simp]:
  "parent blank = None" "children blank = []" "commands blank = []" "destroyed blank = False"
  by (simp_all add: blank_def)

lemma new_object_alloc: "new_object w = (next_ref w, alloc 1 w)"
  by (auto simp add: new_object_def alloc_def fun_eq_iff intro!: world.equality)

lemma alloc_alloc: "alloc j (alloc k w) = alloc (k + j) w"
  by (auto simp add: alloc_def fun_eq_iff intro!: world.equality)

lemma world_eqI:
  "(\<And>r. objs w r = objs v r) \<Longrightarrow> next_ref w = next_ref v \<Longrightarrow> console w = console v
    \<Longrightarrow> world.more w = world.more v \<Longrightarrow> w = v"
  by (rule world.equality) (auto simp: fun_eq_iff)

lemma addChild_orphan:
  "parent (objs w c) = None \<Longrightarrow>
   addChild p c w = upd p (\<lambda>ob. ob\<lparr>children := children ob @ [c]\<rparr>)
                      (upd c (\<lambda>ob. ob\<lparr>parent := Some p\<rparr>) w)"
  by (simp add: addChild_def)

lemma addChild_orphan_objs:
  "parent (objs w c) = None \<Longrightarrow> p \<noteq> c \<Longrightarrow>
   objs (addChild p c w) = (objs w)(c := (objs w c)\<lparr>parent := Some p\<rparr>,
       p := (objs w p)\<lparr>children := children (objs w p) @ [c]\<rparr>)"
  by (simp add: addChild_orphan)

lemma addChild_other [simp]:
  "next_ref (addChild p c w) = next_ref w" "console (addChild p c w) = console w"
  by (simp_all add: addChild_def removeChild_def Let_def split: option.splits)

lemma fold_addChild:
  "\<forall>c \<in> set cs. parent (objs w c) = None \<Longrightarrow> distinct cs \<Longrightarrow> p \<notin> set cs \<Longrightarrow>
   objs (fold (addChild p) cs w) =
     (\<lambda>r. if r = p then (objs w p)\<lparr>children := children (objs w p) @ cs\<rparr>
          else if r \<in> set cs then (objs w r)\<lparr>parent := Some p\<rparr> else objs w r)
   \<and> next_ref (fold (addChild p) cs w) = next_ref w
   \<and> console (fold (addChild p) cs w) = console w"
proof (induction cs arbitrary: w)
  case Nil
  show ?case by (simp add: fun_eq_iff)
next
  case (Cons c cs)
  have c: "parent (objs w c) = None" "p \<noteq> c" "c \<notin> set cs" using Cons.prems by auto
  let ?w = "addChild p c w"
  have o: "objs ?w = (objs w)(c := (objs w c)\<lparr>parent := Some p\<rparr>,
       p := (objs w p)\<lparr>children := children (objs w p) @ [c]\<rparr>)"
    using c by (simp add: addChild_orphan_objs)
  have "\<forall>x \<in> set cs. parent (objs ?w x) = None"
    using Cons.prems c by (auto simp: o)
  moreover have "distinct cs" "p \<notin> set cs" using Cons.prems by auto
  ultimately have IH: "objs (fold (addChild p) cs ?w) =
     (\<lambda>r. if r = p then (objs ?w p)\<lparr>children := children (objs ?w p) @ cs\<rparr>
          else if r \<in> set cs then (objs ?w r)\<lparr>parent := Some p\<rparr> else objs ?w r)
   \<and> next_ref (fold (addChild p) cs ?w) = next_ref ?w
   \<and> console (fold (addChild p) cs ?w) = console ?w"
    by (rule Cons.IH)
  show ?case using c by (auto simp: IH o fun_eq_iff)
qed

lemma reg_phase1:
  "registerSpine this spine w = (Normal,
    this\<lparr>registeredSpines := AList.update spine (entry_at (next_ref w)) (registeredSpines this)\<rparr>,
    addChild spine (next_ref w) (fold (addChild (next_ref w))
       [next_ref w + 1, next_ref w + 2, next_ref w + 3, next_ref w + 4, next_ref w + 5,
        next_ref w + 6, next_ref w + 7, next_ref w + 8, next_ref w + 9, next_ref w + 10,
        next_ref w + 11]
       (alloc 12 (if map_of (registeredSpines this) spine \<noteq> None
                then warn ''SpineDebugRenderer.registerSpine() - this spine is already registered!'' w
                else w))))"
  unfolding registerSpine_def new_object_alloc Let_def split_conv alloc_alloc alloc_simps
  by (simp add: warn_def entry_at_def eval_nat_numeral)

lemma warn_simps [simp]:
  "objs (warn m w) = objs w" "next_ref (warn m w) = next_ref w"
  "console (warn m w) = console w @ [m]"
  by (simp_all add: warn_def)

text \<open>The world right after a registration, object by object.\<close>

lemma registerSpine_result:
  assumes "spine < next_ref w"
  shows "\<exists>w'. registerSpine this spine w = (Normal,
      this\<lparr>registeredSpines := AList.update spine (entry_at (next_ref w)) (registeredSpines this)\<rparr>, w')
    \<and> next_ref w' = next_ref w + 12
    \<and> console w' = (if map_of (registeredSpines this) spine \<noteq> None
         then console w @ [''SpineDebugRenderer.registerSpine() - this spine is already registered!'']
         else console w)
    \<and> objs w' = (\<lambda>r.
         if r = spine then (objs w spine)\<lparr>children := children (objs w spine) @ [next_ref w]\<rparr>
         else if r = next_ref w
           then blank\<lparr>children := map (\<lambda>k. next_ref w + k) [1..<12], parent := Some spine\<rparr>
         else if next_ref w < r \<and> r < next_ref w + 12 then blank\<lparr>parent := Some (next_ref w)\<rparr>
         else objs w r)"
proof -
  define n where "n = next_ref w"
  define w0 where "w0 = (if map_of (registeredSpines this) spine \<noteq> None
                then warn ''SpineDebugRenderer.registerSpine() - this spine is already registered!'' w
                else w)"
  define cs where "cs = [n + 1, n + 2, n + 3, n + 4, n + 5, n + 6, n + 7, n + 8, n + 9, n + 10, n + 11]"
  define w1 where "w1 = alloc 12 w0"
  define w2 where "w2 = fold (addChild n) cs w1"
  have n0: "next_ref w0 = n" "objs w0 = objs w" by (simp_all add: w0_def n_def)
  have mem: "\<And>r. r \<in> set cs \<longleftrightarrow> n < r \<and> r < n + 12" unfolding cs_def set_simps insert_iff empty_iff by arith
  have o1: "\<And>r. objs w1 r = (if n \<le> r \<and> r < n + 12 then blank else objs w r)"
    "next_ref w1 = n + 12" "console w1 = console w0"
    by (simp_all add: w1_def n0)
  have "\<forall>c \<in> set cs. parent (objs w1 c) = None" by (simp add: mem o1)
  moreover have "distinct cs" "n \<notin> set cs" by (simp_all add: cs_def)
  ultimately have f: "objs w2 =
     (\<lambda>r. if r = n then (objs w1 n)\<lparr>children := children (objs w1 n) @ cs\<rparr>
          else if r \<in> set cs then (objs w1 r)\<lparr>parent := Some n\<rparr> else objs w1 r)
   \<and> next_ref w2 = next_ref w1 \<and> console w2 = console w1"
    unfolding w2_def by (rule fold_addChild)
  have p: "parent (objs w2 n) = None" by (simp add: f o1)
  have cs: "map (\<lambda>k. n + k) [1..<12] = cs" by (simp add: upt_rec cs_def)
  have reg: "registerSpine this spine w = (Normal,
      this\<lparr>registeredSpines := AList.update spine (entry_at n) (registeredSpines this)\<rparr>,
      addChild spine n w2)"
    unfolding reg_phase1 w2_def w1_def w0_def cs_def n_def ..
  have c0: "console w0 = (if map_of (registeredSpines this) spine \<noteq> None
         then console w @ [''SpineDebugRenderer.registerSpine() - this spine is already registered!'']
         else console w)" by (simp add: w0_def)
  have sp: "spine < n" using assms by (simp add: n_def)
  have "objs (addChild spine n w2) = (\<lambda>r.
         if r = spine then (objs w spine)\<lparr>children := children (objs w spine) @ [n]\<rparr>
         else if r = n
           then blank\<lparr>children := map (\<lambda>k. n + k) [1..<12], parent := Some spine\<rparr>
         else if n < r \<and> r < n + 12 then blank\<lparr>parent := Some n\<rparr>
         else objs w r)"
    unfolding addChild_orphan[OF p] upd_simps cs
    apply (rule ext)
    using sp apply (simp add: f mem o1)
    done
  then show ?thesis
    unfolding reg n_def[symmetric]
    by (simp add: f o1 c0)
qed

subsection \<open>Drawing calls\<close>

lemma draw_simps [simp]:
  "objs (draw g c w) = (objs w)(g := (objs w g)\<lparr>commands := commands (objs w g) @ [c]\<rparr>)"
  "next_ref (draw g c w) = next_ref w"
  "console (draw g c w) = console w"
  by (simp_all add: draw_def)

lemma draws_Nil [simp]: "draws [] w = w"
  by (simp add: draws_def)

lemma draws_Cons [simp]: "draws ((g, c) # cs) w = draws cs (draw g c w)"
  by (simp add: draws_def)

lemma draws_append: "draws (as @ bs) w = draws bs (draws as w)"
  by (simp add: draws_def)

lemma calls_on_simps [simp]:
  "calls_on g [] = []"
  "calls_on g ((h, c) # cs) = (if h = g then c # calls_on g cs else calls_on g cs)"
  "calls_on g (as @ bs) = calls_on g as @ calls_on g bs"
  by (simp_all add: calls_on_def)

lemma calls_on_outside: "fst ` set cs \<subseteq> S \<Longrightarrow> g \<notin> S \<Longrightarrow> calls_on g cs = []"
  by (induction cs) auto

lemma draws_objs:
  "objs (draws cs w) r = (objs w r)\<lparr>commands := commands (objs w r) @ calls_on r cs\<rparr>"
  by (induction cs arbitrary: w) auto

lemma draws_next_ref [simp]: "next_ref (draws cs w) = next_ref w"
  by (induction cs arbitrary: w) auto

lemma draws_console [simp]: "console (draws cs w) = console w"
  by (induction cs arbitrary: w) auto

lemma draws_more [simp]: "world.more (draws cs w) = world.more w"
  by (induction cs arbitrary: w) (auto simp: draw_def upd_def)

lemma paintsI: "fst ` set cs \<subseteq> S \<Longrightarrow> (\<And>w. f w = draws cs w) \<Longrightarrow> paints S f"
  unfolding paints_def by blast

lemma paintsE:
  assumes p: "paints S f"
    and r: "\<And>cs. fst ` set cs \<subseteq> S \<Longrightarrow> (\<And>w. f w = draws cs w) \<Longrightarrow> P"
  shows P
proof -
  from p obtain cs where c: "fst ` set cs \<subseteq> S \<and> (\<forall>w. f w = draws cs w)"
    unfolding paints_def ..
  from c have 1: "fst ` set cs \<subseteq> S" and 2: "\<And>w. f w = draws cs w" by simp_all
  show P by (rule r[OF 1 2])
qed

lemma paints_withE:
  assumes p: "paints_with S f"
    and r: "\<And>cs x. fst ` set cs \<subseteq> S \<Longrightarrow> (\<And>w. f w = (x, draws cs w)) \<Longrightarrow> P"
  shows P
proof -
  from p obtain cs x where c: "fst ` set cs \<subseteq> S \<and> (\<forall>w. f w = (x, draws cs w))"
    unfolding paints_with_def by (elim exE)
  from c have 1: "fst ` set cs \<subseteq> S" and 2: "\<And>w. f w = (x, draws cs w)" by simp_all
  show P by (rule r[OF 1 2])
qed

lemma paints_id: "paints S (\<lambda>w. w)"
  by (rule paintsI[of "[]"]) simp_all

lemma paints_draws: "fst ` set cs \<subseteq> S \<Longrightarrow> paints S (draws cs)"
  by (rule paintsI[of cs]) simp_all

lemma paints_draw: "g \<in> S \<Longrightarrow> paints S (draw g c)"
  by (rule paintsI[of "[(g, c)]"]) simp_all

lemma paints_comp:
  assumes f: "paints S f" and g: "paints S g"
  shows "paints S (\<lambda>w. g (f w))"
proof (rule paintsE[OF f], rule paintsE[OF g])
  fix as bs
  assume a: "fst ` set as \<subseteq> S" and a2: "\<And>w. f w = draws as w"
    and b: "fst ` set bs \<subseteq> S" and b2: "\<And>w. g w = draws bs w"
  show ?thesis
  proof (rule paintsI[of "as @ bs"])
    show "fst ` set (as @ bs) \<subseteq> S" using a b by auto
    show "\<And>w. g (f w) = draws (as @ bs) w" by (simp add: a2 b2 draws_append)
  qed
qed

lemma paints_if: "paints S f \<Longrightarrow> paints S g \<Longrightarrow> paints S (\<lambda>w. if b then f w else g w)"
proof (cases b)
  case True
  assume "paints S f"
  with True show ?thesis by (simp only: if_True)
next
  case False
  assume "paints S g"
  with False show ?thesis by (simp only: if_False)
qed

lemma paints_mono: "paints S f \<Longrightarrow> S \<subseteq> T \<Longrightarrow> paints T f"
  by (erule paintsE, rule paintsI) auto

lemma paints_withI:
  "fst ` set cs \<subseteq> S \<Longrightarrow> (\<And>w. f w = (x, draws cs w)) \<Longrightarrow> paints_with S f"
  unfolding paints_with_def by blast

lemma paints_then_with:
  assumes f: "paints S f" and g: "paints_with S g"
  shows "paints_with S (\<lambda>w. g (f w))"
proof (rule paintsE[OF f], rule paints_withE[OF g])
  fix as bs x
  assume a: "fst ` set as \<subseteq> S" and a2: "\<And>w. f w = draws as w"
    and b: "fst ` set bs \<subseteq> S" and b2: "\<And>w. g w = (x, draws bs w)"
  show ?thesis
  proof (rule paints_withI[of "as @ bs" _ _ x])
    show "fst ` set (as @ bs) \<subseteq> S" using a b by auto
    show "\<And>w. g (f w) = (x, draws (as @ bs) w)" by (simp add: a2 b2 draws_append)
  qed
qed

subsection \<open>The loops that only draw\<close>

named_theorems paints_intros

lemma paints_k_id [paints_intros]: "paints S (\<lambda>w. w)"
  by (rule paints_id)

lemma paints_k_draw [paints_intros]:
  "g \<in> S \<Longrightarrow> paints S f \<Longrightarrow> paints S (\<lambda>w. draw g c (f w))"
  by (rule paints_comp[OF _ paints_draw])

lemma paints_k_draws [paints_intros]:
  "fst ` set cs \<subseteq> S \<Longrightarrow> paints S f \<Longrightarrow> paints S (\<lambda>w. draws cs (f w))"
  by (rule paints_comp[OF _ paints_draws])

lemma paints_k_if [paints_intros]:
  "(b \<Longrightarrow> paints S f) \<Longrightarrow> (\<not> b \<Longrightarrow> paints S g) \<Longrightarrow> paints S (\<lambda>w. if b then f w else g w)"
  by (cases b) simp_all

lemma paints_k_case_option [paints_intros]:
  "(x = None \<Longrightarrow> paints S f) \<Longrightarrow> (\<And>a. x = Some a \<Longrightarrow> paints S (g a))
    \<Longrightarrow> paints S (\<lambda>w. case x of None \<Rightarrow> f w | Some a \<Rightarrow> g a w)"
  by (cases x) simp_all

lemma paints_k_paths_loop [paints_intros]:
  assumes "curve \<in> S" "line \<in> S" "paints S f"
  shows "paints S (\<lambda>w. paths_loop curve line wv ii nn x1 y1 (f w))"
  using assms(3)
proof (induction "nat (nn - ii)" arbitrary: ii x1 y1 f rule: less_induct)
  case less
  show ?case
  proof (cases "ii < nn")
    case True
    have lt: "nat (nn - (ii + 6)) < nat (nn - ii)" using True by simp
    show ?thesis
      apply (subst paths_loop.simps)
      apply (simp only: True if_True Let_def)
      apply (rule less(1)[OF lt])
      apply (intro paints_intros less(2))
      using assms(1,2) apply simp
      done
  next
    case False
    then show ?thesis
      by (subst paths_loop.simps) (simp add: less(2))
  qed
qed

lemma paints_k_drawPaths_loop [paints_intros]:
  assumes "curve \<in> S" "line \<in> S" "paints S f"
  shows "paints S (\<lambda>w. drawPaths_loop curve line slots (f w))"
  using assms(3)
proof (induction slots arbitrary: f)
  case Nil
  then show ?case by simp
next
  case (Cons slot rest)
  show ?case
    apply (simp only: drawPaths_loop.simps Let_def)
    apply (intro paints_intros Cons assms(1,2))
    using assms(1,2) apply simp_all
    done
qed

lemma paints_k_drawTriangle [paints_intros]:
  "line \<in> S \<Longrightarrow> paints S f \<Longrightarrow> paints S (\<lambda>w. drawTriangle line vertices t1 t2 t3 (f w))"
  unfolding drawTriangle_def by (intro paints_intros) simp_all

lemma triples_induct:
  assumes "P []" "\<And>a. P [a]" "\<And>a b. P [a, b]"
    and "\<And>a b c rest. P rest \<Longrightarrow> P (a # b # c # rest)"
  shows "P (xs :: nat list)"
  by (rule triangles_loop.induct[of "\<lambda>_ _ ts _. P ts" undefined undefined xs undefined])
    (use assms in simp_all)

lemma pairs_induct:
  assumes "P []" "\<And>a. P [a]" "\<And>a b rest. P rest \<Longrightarrow> P (a # b # rest)"
  shows "P (xs :: real list)"
  by (rule polygonVertices_loop.induct[of "\<lambda>_ _ _ ps _. P ps" undefined undefined undefined xs
        undefined])
    (use assms in simp_all)

lemma paints_k_triangles_loop [paints_intros]:
  assumes l: "line \<in> S" and f: "paints S f"
  shows "paints S (\<lambda>w. triangles_loop line vertices ts (f w))"
  using f
proof (induction ts arbitrary: f rule: triples_induct)
  case 1
  then show ?case by simp
next
  case (2 t1)
  show ?case
    by (simp only: triangles_loop.simps) (rule paints_k_drawTriangle[OF l 2])
next
  case (3 t1 t2)
  show ?case
    by (simp only: triangles_loop.simps) (rule paints_k_drawTriangle[OF l 3])
next
  case (4 t1 t2 t3 rest)
  show ?case
    apply (simp only: triangles_loop.simps)
    apply (rule 4(1))
    apply (rule paints_k_drawTriangle[OF l 4(2)])
    done
qed

lemma paints_k_hull_loop [paints_intros]:
  assumes "line \<in> S" "paints S f"
  shows "paints S (\<lambda>w. hull_loop line vertices i len lastX lastY (f w))"
  using assms(2)
proof (induction "nat (len - i)" arbitrary: i lastX lastY f rule: less_induct)
  case less
  show ?case
  proof (cases "i < len")
    case True
    have lt: "nat (len - (i + 2)) < nat (len - i)" using True by simp
    show ?thesis
      apply (subst hull_loop.simps)
      apply (simp only: True if_True Let_def)
      apply (rule less(1)[OF lt])
      apply (intro paints_intros less(2))
      using assms(1) apply simp
      done
  next
    case False
    then show ?thesis
      by (subst hull_loop.simps) (simp add: less(2))
  qed
qed

lemma paints_k_drawMesh_loop [paints_intros]:
  assumes "trianglesLine \<in> S" "hullLine \<in> S" "paints S f"
  shows "paints S (\<lambda>w. drawMesh_loop meshTriangles meshHull trianglesLine hullLine slots (f w))"
  using assms(3)
proof (induction slots arbitrary: f)
  case Nil
  then show ?case by simp
next
  case (Cons slot rest)
  show ?case
    apply (simp only: drawMesh_loop.simps Let_def)
    apply (intro paints_intros Cons assms(1,2))
    done
qed

lemma paints_k_drawClipping_loop [paints_intros]:
  assumes "polygon \<in> S" "paints S f"
  shows "paints S (\<lambda>w. drawClipping_loop polygon slots (f w))"
  using assms(2)
proof (induction slots arbitrary: f)
  case Nil
  then show ?case by simp
next
  case (Cons slot rest)
  show ?case
    apply (simp only: drawClipping_loop.simps Let_def)
    apply (intro paints_intros Cons assms(1))
    done
qed

lemma paints_with_pair: "paints S g \<Longrightarrow> paints_with S (\<lambda>w. (x, g w))"
  by (erule paintsE, rule paints_withI) simp_all

lemma paints_with_polygonVertices_loop:
  assumes ci: "circle \<in> S"
  shows "paints_with S (polygonVertices_loop circle color dotSize pv)"
proof (induction pv rule: pairs_induct)
  case 1
  show ?case by (rule paints_withI[of "[]" _ _ "[]"]) simp_all
next
  case (2 x1)
  show ?case
    by (rule paints_withI[of "[(circle, LineStyle 0 0 1), (circle, BeginFill color 1),
             (circle, DrawCircle (Some x1) None dotSize), (circle, EndFill)]" _ _
             "[Some x1, None]"])
      (simp_all add: ci)
next
  case (3 x1 y1 rest)
  show ?case
  proof (rule paints_withE[OF 3])
    fix cs paths
    assume c: "fst ` set cs \<subseteq> S"
      and e: "\<And>w. polygonVertices_loop circle color dotSize rest w = (paths, draws cs w)"
    show ?thesis
      by (rule paints_withI[of "[(circle, LineStyle 0 0 1), (circle, BeginFill color 1),
             (circle, DrawCircle (Some x1) (Some y1) dotSize), (circle, EndFill)] @ cs" _ _
             "Some x1 # Some y1 # paths"])
        (use c ci in \<open>simp_all add: e Let_def draws_append\<close>)
  qed
qed

lemma paints_with_drawPolygon:
  assumes "boundingBoxesPolygon d \<in> S" "boundingBoxesCircle d \<in> S"
  shows "paints_with S (drawPolygon this d width pv count)"
proof (cases "count < 3")
  case True
  show ?thesis
    by (rule paints_withI[of "[(boundingBoxesPolygon d,
                         LineStyle width (boundingBoxesPolygonColor this) 1),
                      (boundingBoxesPolygon d,
                         BeginFill (boundingBoxesPolygonColor this) 0.1)]" _ _
           "Throw (Error ''Polygon must contain at least 3 vertices'')"])
      (use True assms in \<open>simp_all add: drawPolygon_def\<close>)
next
  case False
  show ?thesis
  proof (rule paints_withE[OF paints_with_polygonVertices_loop[OF assms(2),
        of "boundingBoxesCircleColor this" "width * 2" pv]])
    fix cs paths
    assume c: "fst ` set cs \<subseteq> S"
      and e: "\<And>w. polygonVertices_loop (boundingBoxesCircle d) (boundingBoxesCircleColor this)
                 (width * 2) pv w = (paths, draws cs w)"
    show ?thesis
      by (rule paints_withI[of "[(boundingBoxesPolygon d,
                         LineStyle width (boundingBoxesPolygonColor this) 1),
                      (boundingBoxesPolygon d,
                         BeginFill (boundingBoxesPolygonColor this) 0.1)] @ cs @
                      [(boundingBoxesPolygon d, DrawPolygon paths),
                       (boundingBoxesPolygon d, EndFill)]" _ _ Normal])
        (use c False assms in
          \<open>simp_all add: drawPolygon_def e Let_def draws_append\<close>)
  qed
qed

lemma paints_with_drawBoundingBoxes_loop:
  assumes "boundingBoxesPolygon d \<in> S" "boundingBoxesCircle d \<in> S"
  shows "paints_with S (drawBoundingBoxes_loop this d width ps)"
proof (induction ps)
  case Nil
  show ?case by (rule paints_withI[of "[]" _ _ Normal]) simp_all
next
  case (Cons p ps)
  show ?case
  proof (rule paints_withE[OF paints_with_drawPolygon[OF assms, of this width p "length p"]],
      rule paints_withE[OF Cons])
    fix cs x cs' x'
    assume c: "fst ` set cs \<subseteq> S"
      and e: "\<And>w. drawPolygon this d width p (length p) w = (x, draws cs w)"
      and c': "fst ` set cs' \<subseteq> S"
      and e': "\<And>w. drawBoundingBoxes_loop this d width ps w = (x', draws cs' w)"
    show ?thesis
    proof (cases "x = Normal")
      case True
      show ?thesis
        by (rule paints_withI[of "cs @ cs'" _ _ x'])
          (use c c' True in \<open>simp_all add: e e' draws_append image_Un\<close>)
    next
      case False
      show ?thesis
        by (rule paints_withI[of cs _ _ x])
          (use c False in \<open>simp_all add: e split: outcome.splits\<close>)
    qed
  qed
qed

subsection \<open>The drawing routines as sequences of calls\<close>

lemma paints_drawPathsFunc:
  "\<exists>cs. fst ` set cs \<subseteq> {pathsCurve d, pathsLine d} \<and>
     (\<forall>v. skeleton (objs v spine) = sk \<longrightarrow> drawPathsFunc this spine d width v = draws cs v)"
proof -
  have "paints {pathsCurve d, pathsLine d}
     (\<lambda>w. drawPaths_loop (pathsCurve d) (pathsLine d) (skeleton_slots sk)
        (draw (pathsLine d) (LineStyle width (pathsLineColor this) 1)
           (draw (pathsCurve d) (LineStyle width (pathsCurveColor this) 1) w)))"
    by (intro paints_intros) simp_all
  then show ?thesis
    by (rule paintsE) (auto simp: drawPathsFunc_def Let_def)
qed

lemma paints_drawClippingFunc:
  "\<exists>cs. fst ` set cs \<subseteq> {clippingPolygon d} \<and>
     (\<forall>v. skeleton (objs v spine) = sk \<longrightarrow> drawClippingFunc this spine d width v = draws cs v)"
proof -
  have "paints {clippingPolygon d}
     (\<lambda>w. drawClipping_loop (clippingPolygon d) (skeleton_slots sk)
        (draw (clippingPolygon d) (LineStyle width (clippingPolygonColor this) 1) w))"
    by (intro paints_intros) simp_all
  then show ?thesis
    by (rule paintsE) (auto simp: drawClippingFunc_def Let_def)
qed

lemma paints_drawMeshFunc:
  "\<exists>cs. fst ` set cs \<subseteq> {meshHullLine d, meshTrianglesLine d} \<and>
     (\<forall>v. skeleton (objs v spine) = sk \<longrightarrow>
        drawMeshHullAndMeshTriangles this spine d width v = draws cs v)"
proof -
  have "paints {meshHullLine d, meshTrianglesLine d}
     (\<lambda>w. drawMesh_loop (drawMeshTriangles this) (drawMeshHull this)
        (meshTrianglesLine d) (meshHullLine d) (skeleton_slots sk)
        (draw (meshTrianglesLine d) (LineStyle width (meshTrianglesColor this) 1)
           (draw (meshHullLine d) (LineStyle width (meshHullColor this) 1) w)))"
    by (intro paints_intros) simp_all
  then show ?thesis
    by (rule paintsE) (auto simp: drawMeshHullAndMeshTriangles_def Let_def)
qed

lemma paints_drawBoundingBoxesFunc:
  "\<exists>cs oc. fst ` set cs \<subseteq> {boundingBoxesRect d, boundingBoxesCircle d, boundingBoxesPolygon d} \<and>
     (\<forall>v. skeleton (objs v spine) = sk \<longrightarrow>
        drawBoundingBoxesFunc this spine d width v = (oc, draws cs v))"
proof -
  let ?S = "{boundingBoxesRect d, boundingBoxesCircle d, boundingBoxesPolygon d}"
  let ?b = "skeleton_bounds sk"
  have "paints ?S (\<lambda>w. draw (boundingBoxesRect d)
           (DrawRect (minX ?b) (minY ?b) (getWidth ?b) (getHeight ?b))
           (draw (boundingBoxesRect d) (LineStyle width (boundingBoxesRectColor this) 5) w))"
    by (intro paints_intros) simp_all
  moreover have "paints_with ?S (drawBoundingBoxes_loop this d width (polygons ?b))"
    by (rule paints_with_drawBoundingBoxes_loop) simp_all
  ultimately have "paints_with ?S (\<lambda>w. drawBoundingBoxes_loop this d width (polygons ?b)
      (draw (boundingBoxesRect d)
           (DrawRect (minX ?b) (minY ?b) (getWidth ?b) (getHeight ?b))
           (draw (boundingBoxesRect d) (LineStyle width (boundingBoxesRectColor this) 5) w)))"
    by (rule paints_then_with)
  then show ?thesis
    by (rule paints_withE) (auto simp: drawBoundingBoxesFunc_def Let_def)
qed

subsection \<open>The region loop: drawing calls and the offsets it refreshes\<close>

lemma set_slots_simps [simp]:
  "objs (set_slots spine ss w) =
     (objs w)(spine := (objs w spine)\<lparr>skeleton := (skeleton (objs w spine))\<lparr>skeleton_slots := ss\<rparr>\<rparr>)"
  "next_ref (set_slots spine ss w) = next_ref w"
  "console (set_slots spine ss w) = console w"
  by (simp_all add: set_slots_def)

lemma set_slots_same:
  "skeleton_slots (skeleton (objs w spine)) = ss \<Longrightarrow> set_slots spine ss w = w"
  by (rule world_eqI) (auto simp: set_slots_def upd_def)

lemma set_slot_eq:
  "set_slot spine i slot w =
     set_slots spine ((skeleton_slots (skeleton (objs w spine)))[i := slot]) w"
  by (simp add: set_slot_def set_slots_def)

lemma set_slots_draw:
  "set_slots spine ss (draw g c w) = draw g c (set_slots spine ss w)"
  by (rule world_eqI) (auto simp: set_slots_def upd_def draw_def)

lemma set_slots_draws:
  "set_slots spine ss (draws cs w) = draws cs (set_slots spine ss w)"
  by (induction cs arbitrary: w) (auto simp: set_slots_draw)

lemma set_slots_twice:
  "set_slots spine ss (set_slots spine ss' w) = set_slots spine ss w"
  by (rule world_eqI) (auto simp: set_slots_def upd_def)

lemma region_loop:
  assumes "length pre = i"
  shows "\<exists>cs oc k. fst ` set cs \<subseteq> {shape} \<and> k \<le> length slots \<and>
     (oc = Normal \<longrightarrow> k = length slots) \<and>
     (\<forall>w. skeleton_slots (skeleton (objs w spine)) = pre @ slots \<longrightarrow>
        drawRegionAttachments_loop spine shape i slots w =
          (oc, draws cs (set_slots spine
                 (pre @ map refresh_offset (take k slots) @ drop k slots) w)))"
  using assms
proof (induction slots arbitrary: pre i)
  case Nil
  show ?case
    by (rule exI[of _ "[]"], rule exI[of _ Normal], rule exI[of _ 0])
      (simp add: set_slots_same)
next
  case (Cons slot rest)
  have len: "length (pre @ [refresh_offset slot]) = Suc i" using Cons.prems by simp
  from Cons.IH[OF len] obtain cs oc k where
    c: "fst ` set cs \<subseteq> {shape}" and k: "k \<le> length rest" "oc = Normal \<longrightarrow> k = length rest"
    and e: "\<And>w. skeleton_slots (skeleton (objs w spine)) = (pre @ [refresh_offset slot]) @ rest \<Longrightarrow>
        drawRegionAttachments_loop spine shape (Suc i) rest w =
          (oc, draws cs (set_slots spine
                 ((pre @ [refresh_offset slot]) @ map refresh_offset (take k rest) @ drop k rest) w))"
    by blast
  consider (skip) "refresh_offset slot = slot"
      "\<And>w. drawRegionAttachments_loop spine shape i (slot # rest) w =
           drawRegionAttachments_loop spine shape (Suc i) rest w"
    | (throw) a where "getAttachment slot = Some a" "atype a = Region" "updateOffset a = None"
    | (region) a off where "getAttachment slot = Some a" "atype a = Region"
        "updateOffset a = Some off"
  proof (cases "getAttachment slot")
    case None
    then show ?thesis by (intro that(1)) (simp_all add: refresh_offset_def)
  next
    case (Some a)
    note att = this
    show ?thesis
    proof (cases "atype a = Region")
      case False
      with att show ?thesis by (intro that(1)) (simp_all add: refresh_offset_def)
    next
      case True
      note reg = this
      show ?thesis
      proof (cases "updateOffset a")
        case None
        with att reg show ?thesis by (intro that(2))
      next
        case (Some off)
        with att reg show ?thesis by (intro that(3))
      qed
    qed
  qed
  then show ?case
  proof cases
    case skip
    show ?thesis
      apply (rule exI[of _ cs], rule exI[of _ oc], rule exI[of _ "Suc k"])
      using c k apply (simp add: skip e del: drawRegionAttachments_loop.simps)
      done
  next
    case throw
    show ?thesis
      apply (rule exI[of _ "[]"], rule exI[of _ "Throw TypeError"], rule exI[of _ 0])
      using throw apply (simp add: set_slots_same)
      done
  next
    case region
    let ?a = "a\<lparr>offset := off\<rparr>"
    let ?c = "DrawPolygon (map Some (take 8 (written 8 (computeWorldVertices ?a (offset ?a)))))"
    have r: "refresh_offset slot = slot\<lparr>getAttachment := Some ?a\<rparr>"
      using region by (simp add: refresh_offset_def)
    show ?thesis
    proof (rule exI[of _ "(shape, ?c) # cs"], rule exI[of _ oc], rule exI[of _ "Suc k"],
        intro conjI allI impI)
      show "fst ` set ((shape, ?c) # cs) \<subseteq> {shape}" using c by simp
      show "Suc k \<le> length (slot # rest)" using k by simp
      show "Suc k = length (slot # rest)" if "oc = Normal" using k that by simp
      fix w :: world
      assume w: "skeleton_slots (skeleton (objs w spine)) = pre @ slot # rest"
      let ?w1 = "set_slots spine (pre @ refresh_offset slot # rest) w"
      have s1: "set_slot spine i (slot\<lparr>getAttachment := Some ?a\<rparr>) w = ?w1"
        using Cons.prems[symmetric] by (simp add: set_slot_eq w r)
      have "skeleton_slots (skeleton (objs (draw shape ?c ?w1) spine))
          = (pre @ [refresh_offset slot]) @ rest" by simp
      note e[OF this]
      then show "drawRegionAttachments_loop spine shape i (slot # rest) w =
          (oc, draws ((shape, ?c) # cs) (set_slots spine
              (pre @ map refresh_offset (take (Suc k) (slot # rest)) @ drop (Suc k) (slot # rest)) w))"
        using region
        by (simp add: s1 Let_def set_slots_draw[symmetric] set_slots_twice)
    qed
  qed
qed

subsection \<open>drawBonesFunc: one new Graphics per drawn bone\<close>

lemma segment_length_zero_iff:
  "segment_length skeletonX skeletonY bone = 0 \<longleftrightarrow>
     bone_start skeletonX skeletonY bone = bone_end skeletonX skeletonY bone"
proof -
  have "\<And>a b :: real. sqrt (\<bar>a\<bar> ^ 2 + \<bar>b\<bar> ^ 2) = 0 \<longleftrightarrow> a = 0 \<and> b = 0"
    by (simp add: sum_power2_eq_zero_iff)
  then show ?thesis
    by (auto simp: segment_length_def bone_start_def bone_end_def)
qed

lemma draws_fields [simp]:
  "parent (objs (draws cs w) r) = parent (objs w r)"
  "children (objs (draws cs w) r) = children (objs w r)"
  "destroyed (objs (draws cs w) r) = destroyed (objs w r)"
  "skeleton (objs (draws cs w) r) = skeleton (objs w r)"
  "scale_x (objs (draws cs w) r) = scale_x (objs w r)"
  "scale_y (objs (draws cs w) r) = scale_y (objs w r)"
  by (simp_all add: draws_objs)

lemma draws_commands:
  "commands (objs (draws cs w) r) = commands (objs w r) @ calls_on r cs"
  by (simp add: draws_objs)

lemma draws_other: "r \<notin> fst ` set cs \<Longrightarrow> objs (draws cs w) r = objs w r"
  by (simp add: draws_objs calls_on_outside[of cs "fst ` set cs"])

lemma drawBone_result:
  fixes color bc width scale sx sy ex ey c B w
  assumes "bc < next_ref w"
  defines "w' \<equiv> drawBone color bc width scale sx sy ex ey c B w"
  shows "parent (objs w' (next_ref w)) = Some bc"
    and "children (objs w' (next_ref w)) = []"
    and "\<not> destroyed (objs w' (next_ref w))"
    and "objs w' bc = (objs w bc)\<lparr>children := children (objs w bc) @ [next_ref w]\<rparr>"
    and "\<And>r. r \<noteq> next_ref w \<Longrightarrow> r \<noteq> bc \<Longrightarrow> objs w' r = objs w r"
    and "next_ref w' = Suc (next_ref w)"
    and "console w' = console w"
proof -
  define gp where "gp = next_ref w"
  define w2 where "w2 = addChild bc gp (alloc 1 w)"
  have p: "parent (objs (alloc 1 w) gp) = None" by (simp add: gp_def)
  have ne: "bc \<noteq> gp" using assms(1) by (simp add: gp_def)
  have o2: "objs w2 = (objs (alloc 1 w))(gp := (objs (alloc 1 w) gp)\<lparr>parent := Some bc\<rparr>,
       bc := (objs (alloc 1 w) bc)\<lparr>children := children (objs (alloc 1 w) bc) @ [gp]\<rparr>)"
    unfolding w2_def by (rule addChild_orphan_objs[OF p ne])
  have g2: "parent (objs w2 gp) = Some bc" "children (objs w2 gp) = []"
    "\<not> destroyed (objs w2 gp)"
    using ne by (simp_all add: o2) (simp_all add: gp_def)
  have b2: "objs w2 bc = (objs w bc)\<lparr>children := children (objs w bc) @ [gp]\<rparr>"
    using ne assms(1) by (simp add: o2)
  have r2: "\<And>r. r \<noteq> gp \<Longrightarrow> r \<noteq> bc \<Longrightarrow> objs w2 r = objs w r"
    by (auto simp: o2 gp_def)
  have n2: "next_ref w2 = Suc (next_ref w)" "console w2 = console w"
    by (simp_all add: w2_def)
  obtain csa csb fa fb where w': "w' = draws csb (upd gp fb (upd gp fa (draws csa w2)))"
    and cs: "fst ` set csa \<subseteq> {gp}" "fst ` set csb \<subseteq> {gp}"
    and f: "\<And>ob. parent (fa ob) = parent ob \<and> children (fa ob) = children ob
              \<and> destroyed (fa ob) = destroyed ob"
           "\<And>ob. parent (fb ob) = parent ob \<and> children (fb ob) = children ob
              \<and> destroyed (fb ob) = destroyed ob"
  proof -
    show ?thesis
      by (rule that[where
            csa = "[(gp, BeginFill color 1),
                      (gp, DrawPolygon (map Some [0, 0, 0 - c / 50 / scale, c - c / 50 / scale * 3, 0,
                             c - c / 50 / scale, 0 + c / 50 / scale, c - c / 50 / scale * 3])),
                      (gp, EndFill)]"
            and csb = "[(gp, LineStyle (width + c / 50 / scale / 2.4) color 1),
                (gp, BeginFill 0x000000 0.6),
                (gp, DrawCircle (Some 0) (Some c) (c / 50 / scale * 1.2)),
                (gp, EndFill)]"
            and fa = "\<lambda>ob. ob\<lparr>pos_x := sx, pos_y := sy, pivot_y := c\<rparr>"
            and fb = "\<lambda>ob. ob\<lparr>rotation := bone_rotation sx sy ex ey B\<rparr>"])
        (simp_all only: w'_def drawBone_def new_object_alloc Let_def split_conv gp_def w2_def,
          simp_all del: draws_Cons draws_Nil)
  qed
  have fields: "parent (objs w' r) = parent (objs w2 r)"
    "children (objs w' r) = children (objs w2 r)"
    "destroyed (objs w' r) = destroyed (objs w2 r)" for r
    unfolding w' by (simp_all add: f)
  show "parent (objs w' (next_ref w)) = Some bc"
    and "children (objs w' (next_ref w)) = []"
    and "\<not> destroyed (objs w' (next_ref w))"
    using g2 by (simp_all add: fields gp_def)
  have other: "objs w' r = objs w2 r" if "r \<noteq> gp" for r
    unfolding w' using that cs by (auto simp: draws_objs calls_on_outside[of _ "{gp}"])
  show "objs w' bc = (objs w bc)\<lparr>children := children (objs w bc) @ [next_ref w]\<rparr>"
    using other[OF ne] b2 by (simp add: gp_def)
  show "\<And>r. r \<noteq> next_ref w \<Longrightarrow> r \<noteq> bc \<Longrightarrow> objs w' r = objs w r"
    using other r2 by (simp add: gp_def)
  show "next_ref w' = Suc (next_ref w)" "console w' = console w"
    unfolding w' using n2 by simp_all
qed

lemma segment_length_code:
  "segment_length skX skY bone =
     sqrt (\<bar>skX + matrix_tx bone - (skX + data_length bone * matrix_a bone + matrix_tx bone)\<bar> ^ 2
         + \<bar>skY + matrix_ty bone - (skY + data_length bone * matrix_b bone + matrix_ty bone)\<bar> ^ 2)"
  by (simp only: segment_length_def bone_start_def bone_end_def fst_conv snd_conv)

lemma drawBones_loop_Cons:
  "\<exists>sx sy ex ey c B. drawBones_loop color bc width scale skX skY (bone # rest) w =
     drawBones_loop color bc width scale skX skY rest
       (if bone_drawn skX skY bone then drawBone color bc width scale sx sy ex ey c B w else w)"
proof (cases "data_name bone = ''root'' \<or> data_parent bone = None")
  case True
  then have "\<not> bone_drawn skX skY bone" by (auto simp: bone_drawn_def)
  then show ?thesis
    unfolding drawBones_loop.simps Let_def using True by (simp only: if_True if_False) simp
next
  case False
  show ?thesis
  proof (cases "segment_length skX skY bone = 0")
    case True
    then have "\<not> bone_drawn skX skY bone" by (auto simp: bone_drawn_def)
    then show ?thesis
      unfolding drawBones_loop.simps Let_def segment_length_code[symmetric]
      using True False by (simp only: if_True if_False) simp
  next
    case nz: False
    then have "bone_drawn skX skY bone" using False by (auto simp: bone_drawn_def)
    then show ?thesis
      unfolding drawBones_loop.simps Let_def segment_length_code[symmetric]
      using nz False by (simp only: if_True if_False) (intro exI, rule refl)
  qed
qed

lemma drawBones_loop_result:
  fixes color bc width scale skX skY bs w
  assumes "bc < next_ref w"
  defines "w' \<equiv> drawBones_loop color bc width scale skX skY bs w"
    and "k \<equiv> length (filter (bone_drawn skX skY) bs)"
  shows "next_ref w' = next_ref w + k"
    and "console w' = console w"
    and "\<And>r. r < next_ref w \<Longrightarrow> r \<noteq> bc \<Longrightarrow> objs w' r = objs w r"
    and "objs w' bc = (objs w bc)\<lparr>children := children (objs w bc) @
            [next_ref w ..< next_ref w + k]\<rparr>"
    and "\<And>r. next_ref w \<le> r \<Longrightarrow> r < next_ref w + k \<Longrightarrow>
           parent (objs w' r) = Some bc \<and> children (objs w' r) = [] \<and> \<not> destroyed (objs w' r)"
proof -
  have "next_ref (drawBones_loop color bc width scale skX skY bs w)
           = next_ref w + length (filter (bone_drawn skX skY) bs)
     \<and> console (drawBones_loop color bc width scale skX skY bs w) = console w
     \<and> (\<forall>r. r < next_ref w \<longrightarrow> r \<noteq> bc \<longrightarrow>
           objs (drawBones_loop color bc width scale skX skY bs w) r = objs w r)
     \<and> objs (drawBones_loop color bc width scale skX skY bs w) bc =
         (objs w bc)\<lparr>children := children (objs w bc) @
            [next_ref w ..< next_ref w + length (filter (bone_drawn skX skY) bs)]\<rparr>
     \<and> (\<forall>r. next_ref w \<le> r \<longrightarrow> r < next_ref w + length (filter (bone_drawn skX skY) bs) \<longrightarrow>
           parent (objs (drawBones_loop color bc width scale skX skY bs w) r) = Some bc
         \<and> children (objs (drawBones_loop color bc width scale skX skY bs w) r) = []
         \<and> \<not> destroyed (objs (drawBones_loop color bc width scale skX skY bs w) r))"
    using assms(1)
  proof (induction bs arbitrary: w)
    case Nil
    show ?case by simp
  next
    case (Cons bone rest)
    obtain sx sy ex ey c B where
      step: "drawBones_loop color bc width scale skX skY (bone # rest) w =
        drawBones_loop color bc width scale skX skY rest
         (if bone_drawn skX skY bone then drawBone color bc width scale sx sy ex ey c B w else w)"
      using drawBones_loop_Cons[of color bc width scale skX skY bone rest w] by (elim exE)
    show ?case
    proof (cases "bone_drawn skX skY bone")
      case False
      then show ?thesis using Cons.IH[OF Cons.prems] by (simp add: step del: drawBones_loop.simps)
    next
      case True
      define w1 where "w1 = drawBone color bc width scale sx sy ex ey c B w"
      note r = drawBone_result[OF Cons.prems, where color=color and width=width
          and scale=scale and sx=sx and sy=sy and ex=ex and ey=ey and c=c and B=B,
          folded w1_def]
      have bc1: "bc < next_ref w1" using Cons.prems r(6) by simp
      note IH = Cons.IH[OF bc1]
      let ?k = "length (filter (bone_drawn skX skY) rest)"
      let ?w' = "drawBones_loop color bc width scale skX skY rest w1"
      have upt: "[next_ref w ..< next_ref w + Suc ?k]
           = next_ref w # [Suc (next_ref w) ..< Suc (next_ref w) + ?k]"
        by (simp add: upt_conv_Cons del: upt_Suc)
      have s: "drawBones_loop color bc width scale skX skY (bone # rest) w = ?w'"
        using True by (simp only: step w1_def if_True)
      have len: "length (filter (bone_drawn skX skY) (bone # rest)) = Suc ?k"
        using True by simp
      from IH have i1: "next_ref ?w' = next_ref w1 + ?k" and i2: "console ?w' = console w1"
        and i3: "\<And>r. r < next_ref w1 \<Longrightarrow> r \<noteq> bc \<Longrightarrow> objs ?w' r = objs w1 r"
        and i4: "objs ?w' bc = (objs w1 bc)\<lparr>children := children (objs w1 bc) @
            [next_ref w1 ..< next_ref w1 + ?k]\<rparr>"
        and i5: "\<And>r. next_ref w1 \<le> r \<Longrightarrow> r < next_ref w1 + ?k \<Longrightarrow>
           parent (objs ?w' r) = Some bc \<and> children (objs ?w' r) = [] \<and> \<not> destroyed (objs ?w' r)"
        by simp_all
      have gp: "objs ?w' (next_ref w) = objs w1 (next_ref w)"
        using Cons.prems by (intro i3) (simp_all add: r(6))
      show ?thesis
        unfolding s len
      proof (intro conjI allI impI)
        show "next_ref ?w' = next_ref w + Suc ?k" by (simp add: i1 r(6))
        show "console ?w' = console w" by (simp add: i2 r(7))
        show "objs ?w' x = objs w x" if "x < next_ref w" "x \<noteq> bc" for x
          using that by (simp add: i3 r(5,6))
        show "objs ?w' bc = (objs w bc)\<lparr>children := children (objs w bc) @
            [next_ref w ..< next_ref w + Suc ?k]\<rparr>"
          unfolding upt by (simp add: i4 r(4,6))
        show "parent (objs ?w' x) = Some bc" "children (objs ?w' x) = []"
          "\<not> destroyed (objs ?w' x)" if "next_ref w \<le> x" "x < next_ref w + Suc ?k" for x
        proof -
          have "parent (objs ?w' x) = Some bc \<and> children (objs ?w' x) = []
              \<and> \<not> destroyed (objs ?w' x)"
          proof (cases "x = next_ref w")
            case True
            then show ?thesis by (simp add: gp r(1,2,3))
          next
            case False
            with that show ?thesis by (intro i5) (simp_all add: r(6))
          qed
          then show "parent (objs ?w' x) = Some bc" "children (objs ?w' x) = []"
            "\<not> destroyed (objs ?w' x)" by simp_all
        qed
      qed
    qed
  qed
  then show "next_ref w' = next_ref w + k"
    and "console w' = console w"
    and "\<And>r. r < next_ref w \<Longrightarrow> r \<noteq> bc \<Longrightarrow> objs w' r = objs w r"
    and "objs w' bc = (objs w bc)\<lparr>children := children (objs w bc) @
            [next_ref w ..< next_ref w + k]\<rparr>"
    and "\<And>r. next_ref w \<le> r \<Longrightarrow> r < next_ref w + k \<Longrightarrow>
           parent (objs w' r) = Some bc \<and> children (objs w' r) = [] \<and> \<not> destroyed (objs w' r)"
    unfolding w'_def k_def by simp_all
qed

lemma drawBonesFunc_result:
  fixes this spine d width scale w
  assumes b: "bones d < next_ref w" and x: "skeletonXY d < next_ref w"
    and ne: "skeletonXY d \<noteq> bones d"
  defines "w' \<equiv> drawBonesFunc this spine d width scale w"
    and "sk \<equiv> skeleton (objs w spine)"
  defines "k \<equiv> length (filter (bone_drawn (skeleton_x sk) (skeleton_y sk)) (skeleton_bones sk))"
  shows "next_ref w' = next_ref w + k"
    and "console w' = console w"
    and "objs w' (bones d) = (objs w (bones d))\<lparr>children := children (objs w (bones d)) @
            [next_ref w ..< next_ref w + k]\<rparr>"
    and "objs w' (skeletonXY d) = (objs w (skeletonXY d))\<lparr>commands :=
           commands (objs w (skeletonXY d)) @
           [LineStyle width (skeletonXYColor this) 1,
            MoveTo (Some (skeleton_x sk - width * 3)) (Some (skeleton_y sk - width * 3)),
            LineTo (Some (skeleton_x sk + width * 3)) (Some (skeleton_y sk + width * 3)),
            MoveTo (Some (skeleton_x sk + width * 3)) (Some (skeleton_y sk - width * 3)),
            LineTo (Some (skeleton_x sk - width * 3)) (Some (skeleton_y sk + width * 3))]\<rparr>"
    and "\<And>r. r < next_ref w \<Longrightarrow> r \<noteq> bones d \<Longrightarrow> r \<noteq> skeletonXY d \<Longrightarrow> objs w' r = objs w r"
    and "\<And>r. next_ref w \<le> r \<Longrightarrow> r < next_ref w + k \<Longrightarrow>
           parent (objs w' r) = Some (bones d) \<and> children (objs w' r) = []
           \<and> \<not> destroyed (objs w' r)"
proof -
  define w1 where "w1 = draw (skeletonXY d) (LineStyle width (skeletonXYColor this) 1) w"
  define w2 where "w2 = drawBones_loop (bonesColor this) (bones d) width scale
      (skeleton_x sk) (skeleton_y sk) (skeleton_bones sk) w1"
  define X where "X = [(skeletonXY d,
               MoveTo (Some (skeleton_x sk - width * 3)) (Some (skeleton_y sk - width * 3))),
            (skeletonXY d,
               LineTo (Some (skeleton_x sk + width * 3)) (Some (skeleton_y sk + width * 3))),
            (skeletonXY d,
               MoveTo (Some (skeleton_x sk + width * 3)) (Some (skeleton_y sk - width * 3))),
            (skeletonXY d,
               LineTo (Some (skeleton_x sk - width * 3)) (Some (skeleton_y sk + width * 3)))]"
  have w': "w' = draws X w2"
    by (simp only: w'_def drawBonesFunc_def Let_def sk_def w1_def w2_def X_def)
  have b1: "bones d < next_ref w1" using b by (simp add: w1_def)
  have n1: "next_ref w1 = next_ref w" "console w1 = console w" by (simp_all add: w1_def)
  note L = drawBones_loop_result[OF b1, where color="bonesColor this" and width=width
      and scale=scale and skX="skeleton_x sk" and skY="skeleton_y sk" and bs="skeleton_bones sk",
      folded w2_def k_def, unfolded n1]
  show "next_ref w' = next_ref w + k" "console w' = console w"
    by (simp_all add: w' L(1,2))
  show "objs w' (bones d) = (objs w (bones d))\<lparr>children := children (objs w (bones d)) @
            [next_ref w ..< next_ref w + k]\<rparr>"
    using ne by (simp add: w' draws_other X_def L(4) w1_def)
  have "objs w2 (skeletonXY d) = objs w1 (skeletonXY d)"
    using x ne by (intro L(3)) simp_all
  then show "objs w' (skeletonXY d) = (objs w (skeletonXY d))\<lparr>commands :=
           commands (objs w (skeletonXY d)) @
           [LineStyle width (skeletonXYColor this) 1,
            MoveTo (Some (skeleton_x sk - width * 3)) (Some (skeleton_y sk - width * 3)),
            LineTo (Some (skeleton_x sk + width * 3)) (Some (skeleton_y sk + width * 3)),
            MoveTo (Some (skeleton_x sk + width * 3)) (Some (skeleton_y sk - width * 3)),
            LineTo (Some (skeleton_x sk - width * 3)) (Some (skeleton_y sk + width * 3))]\<rparr>"
    by (simp add: w' draws_objs X_def w1_def del: draws_Cons)
  show "objs w' r = objs w r" if "r < next_ref w" "r \<noteq> bones d" "r \<noteq> skeletonXY d" for r
    using that by (simp add: w' draws_other X_def L(3) w1_def)
  show "parent (objs w' r) = Some (bones d) \<and> children (objs w' r) = []
           \<and> \<not> destroyed (objs w' r)" if "next_ref w \<le> r" "r < next_ref w + k" for r
    using L(5)[OF that] by (simp add: w')
qed

subsection \<open>Clearing and destroying\<close>

lemma upd_upd_same: "upd r f (upd r g w) = upd r (\<lambda>ob. f (g ob)) w"
  by (rule world_eqI) (simp_all add: upd_def)

lemma fold_clear_objs:
  "objs (fold clear gs w) r = (if r \<in> set gs then (objs w r)\<lparr>commands := []\<rparr> else objs w r)"
  by (induction gs arbitrary: w) (auto simp: clear_def)

lemma fold_clear_other [simp]:
  "next_ref (fold clear gs w) = next_ref w" "console (fold clear gs w) = console w"
  by (induction gs arbitrary: w) (auto simp: clear_def)

lemma removeChild_other [simp]:
  "next_ref (removeChild p c w) = next_ref w" "console (removeChild p c w) = console w"
  by (simp_all add: removeChild_def)

text \<open>Destroying a childless object whose parent lists it.\<close>

lemma destroy_leaf_child:
  assumes "children (objs w c) = []" "parent (objs w c) = Some p" "p \<noteq> c"
    "c \<in> set (children (objs w p))"
  shows "\<exists>w'. destroy (Suc n) c w = Some w'
     \<and> objs w' = (objs w)(c := (objs w c)\<lparr>parent := None, destroyed := True, children := []\<rparr>,
                           p := (objs w p)\<lparr>children := remove1 c (children (objs w p))\<rparr>)
     \<and> next_ref w' = next_ref w \<and> console w' = console w"
  using assms
  by (simp add: removeChild_def Let_def fun_upd_twist)

text \<open>Destroying a childless object that has no parent.\<close>

lemma destroy_leaf_orphan:
  assumes "children (objs w c) = []" "parent (objs w c) = None"
  shows "\<exists>w'. destroy (Suc n) c w = Some w'
     \<and> objs w' = (objs w)(c := (objs w c)\<lparr>parent := None, destroyed := True, children := []\<rparr>)
     \<and> next_ref w' = next_ref w \<and> console w' = console w"
  using assms by (simp add: Let_def)

lemma destroy_children_loop_result:
  assumes "children (objs w bc) = cs" "distinct cs"
    and "\<forall>c \<in> set cs. c \<noteq> bc \<and> parent (objs w c) = Some bc \<and> children (objs w c) = []"
    and "0 < next_ref w"
  shows "\<exists>w'. destroy_children_loop bc (length cs) w = (Normal, w')
     \<and> objs w' = (\<lambda>r. if r = bc then (objs w bc)\<lparr>children := []\<rparr>
                     else if r \<in> set cs
                       then (objs w r)\<lparr>parent := None, destroyed := True, children := []\<rparr>
                     else objs w r)
     \<and> next_ref w' = next_ref w \<and> console w' = console w"
  using assms
proof (induction cs arbitrary: w rule: rev_induct)
  case Nil
  then show ?case by (auto simp: fun_eq_iff)
next
  case (snoc x xs)
  from snoc.prems(4) obtain n where n: "next_ref w = Suc n" by (cases "next_ref w") auto
  have x: "children (objs w x) = []" "parent (objs w x) = Some bc" "bc \<noteq> x"
    "x \<in> set (children (objs w bc))" "x \<notin> set xs"
    using snoc.prems by auto
  from destroy_leaf_child[OF x(1,2,3,4), of n] obtain w1 where
    d: "destroy (Suc n) x w = Some w1"
    and o1: "objs w1 = (objs w)(x := (objs w x)\<lparr>parent := None, destroyed := True, children := []\<rparr>,
                           bc := (objs w bc)\<lparr>children := remove1 x (children (objs w bc))\<rparr>)"
    and n1: "next_ref w1 = next_ref w" "console w1 = console w"
    by blast
  have rm: "remove1 x (xs @ [x]) = xs" using x(5) by (simp add: remove1_append)
  have c1: "children (objs w1 bc) = xs" using snoc.prems(1) by (simp add: o1 rm)
  have "distinct xs" using snoc.prems(2) by simp
  moreover have "\<forall>c \<in> set xs. c \<noteq> bc \<and> parent (objs w1 c) = Some bc \<and> children (objs w1 c) = []"
    using snoc.prems(3) x(5) by (auto simp: o1)
  moreover have "0 < next_ref w1" using snoc.prems(4) n1 by simp
  ultimately obtain w' where
    l: "destroy_children_loop bc (length xs) w1 = (Normal, w')"
    and o': "objs w' = (\<lambda>r. if r = bc then (objs w1 bc)\<lparr>children := []\<rparr>
                     else if r \<in> set xs
                       then (objs w1 r)\<lparr>parent := None, destroyed := True, children := []\<rparr>
                     else objs w1 r)"
    and n': "next_ref w' = next_ref w1" "console w' = console w1"
    using snoc.IH[OF c1] by blast
  have "destroy_children_loop bc (length (xs @ [x])) w = (Normal, w')"
    using snoc.prems(1) by (simp add: at_index_def nth_append n d l del: destroy.simps)
  moreover have "objs w' = (\<lambda>r. if r = bc then (objs w bc)\<lparr>children := []\<rparr>
                     else if r \<in> set (xs @ [x])
                       then (objs w r)\<lparr>parent := None, destroyed := True, children := []\<rparr>
                     else objs w r)"
    using x(3,5) by (auto simp: o' o1 fun_eq_iff)
  ultimately show ?case using n' n1 by simp
qed

lemma destroy_all_orphans:
  assumes "distinct cs"
    and "\<forall>c \<in> set cs. parent (objs w c) = None \<and> children (objs w c) = []"
  shows "\<exists>w'. destroy_all (Suc n) cs w = Some w'
     \<and> objs w' = (\<lambda>r. if r \<in> set cs
                       then (objs w r)\<lparr>parent := None, destroyed := True, children := []\<rparr>
                     else objs w r)
     \<and> next_ref w' = next_ref w \<and> console w' = console w"
  using assms
proof (induction cs arbitrary: w)
  case Nil
  then show ?case by simp
next
  case (Cons c cs)
  have c: "children (objs w c) = []" "parent (objs w c) = None" "c \<notin> set cs"
    using Cons.prems by auto
  from destroy_leaf_orphan[OF c(1,2), of n] obtain w1 where
    d: "destroy (Suc n) c w = Some w1"
    and o1: "objs w1 = (objs w)(c := (objs w c)\<lparr>parent := None, destroyed := True, children := []\<rparr>)"
    and n1: "next_ref w1 = next_ref w" "console w1 = console w"
    by blast
  have "distinct cs" using Cons.prems by simp
  moreover have "\<forall>x \<in> set cs. parent (objs w1 x) = None \<and> children (objs w1 x) = []"
    using Cons.prems c(3) by (auto simp: o1)
  ultimately obtain w' where
    l: "destroy_all (Suc n) cs w1 = Some w'"
    and o': "objs w' = (\<lambda>r. if r \<in> set cs
                       then (objs w1 r)\<lparr>parent := None, destroyed := True, children := []\<rparr>
                     else objs w1 r)"
    and n': "next_ref w' = next_ref w1" "console w' = console w1"
    using Cons.IH by blast
  have "destroy_all (Suc n) (c # cs) w = Some w'"
    by (simp add: d l del: destroy.simps)
  moreover have "objs w' = (\<lambda>r. if r \<in> set (c # cs)
                       then (objs w r)\<lparr>parent := None, destroyed := True, children := []\<rparr>
                     else objs w r)"
    using c(3) by (auto simp: o' o1 fun_eq_iff)
  ultimately show ?case using n' n1 by simp
qed

lemma fold_orphan:
  "objs (fold (\<lambda>c. upd c (\<lambda>ob. ob\<lparr>parent := None\<rparr>)) cs w) =
     (\<lambda>r. if r \<in> set cs then (objs w r)\<lparr>parent := None\<rparr> else objs w r)
   \<and> next_ref (fold (\<lambda>c. upd c (\<lambda>ob. ob\<lparr>parent := None\<rparr>)) cs w) = next_ref w
   \<and> console (fold (\<lambda>c. upd c (\<lambda>ob. ob\<lparr>parent := None\<rparr>)) cs w) = console w"
  by (induction cs arbitrary: w) (auto simp: fun_eq_iff)

text \<open>Destroying a parentless container whose children are all childless.\<close>

lemma destroy_flat_container:
  assumes "parent (objs w r) = None" "children (objs w r) = cs" "distinct cs" "r \<notin> set cs"
    and "\<forall>c \<in> set cs. children (objs w c) = []"
  shows "\<exists>w'. destroy (Suc (Suc n)) r w = Some w'
     \<and> objs w' = (\<lambda>x. if x = r \<or> x \<in> set cs
                       then (objs w x)\<lparr>parent := None, destroyed := True, children := []\<rparr>
                     else objs w x)
     \<and> next_ref w' = next_ref w \<and> console w' = console w"
proof -
  define w2 where "w2 = upd r (\<lambda>ob. ob\<lparr>parent := None, destroyed := True\<rparr>) w"
  define w3 where "w3 = fold (\<lambda>c. upd c (\<lambda>ob. ob\<lparr>parent := None\<rparr>)) cs w2"
  define w4 where "w4 = upd r (\<lambda>ob. ob\<lparr>children := []\<rparr>) w3"
  have c2: "children (objs w2 r) = cs" using assms(2) by (simp add: w2_def)
  have step: "destroy (Suc (Suc n)) r w = destroy_all (Suc n) cs w4"
    using assms(1,2) by (simp add: Let_def w2_def w3_def w4_def)
  note f = fold_orphan[of cs w2, folded w3_def]
  have o4: "objs w4 = (\<lambda>x. if x = r then (objs w r)\<lparr>parent := None, destroyed := True, children := []\<rparr>
                     else if x \<in> set cs then (objs w x)\<lparr>parent := None\<rparr> else objs w x)"
    using assms(4) by (auto simp: w4_def f w2_def fun_eq_iff)
  have n4: "next_ref w4 = next_ref w" "console w4 = console w"
    by (simp_all add: w4_def f w2_def)
  have "\<forall>c \<in> set cs. parent (objs w4 c) = None \<and> children (objs w4 c) = []"
    using assms(4,5) by (auto simp: o4)
  from destroy_all_orphans[OF assms(3) this, of n] obtain w' where
    l: "destroy_all (Suc n) cs w4 = Some w'"
    and o': "objs w' = (\<lambda>r. if r \<in> set cs
                       then (objs w4 r)\<lparr>parent := None, destroyed := True, children := []\<rparr>
                     else objs w4 r)"
    and n': "next_ref w' = next_ref w4" "console w' = console w4"
    by blast
  have "objs w' = (\<lambda>x. if x = r \<or> x \<in> set cs
                       then (objs w x)\<lparr>parent := None, destroyed := True, children := []\<rparr>
                     else objs w x)"
    using assms(4) by (auto simp: o' o4 fun_eq_iff)
  then show ?thesis using step l n' n4 by simp
qed

subsection \<open>Well-formed registration entries\<close>

lemma wf_entryD:
  assumes "wf_entry w spine d"
  shows "distinct (entry_refs spine d)"
    and "\<And>r. r \<in> set (entry_refs spine d) \<Longrightarrow> r < next_ref w"
    and "parentDebugContainer d \<in> set (children (objs w spine))"
    and "parent (objs w (parentDebugContainer d)) = Some spine"
    and "children (objs w (parentDebugContainer d)) = bones d # surfaces d"
    and "parent (objs w (bones d)) = Some (parentDebugContainer d)"
    and "\<And>g. g \<in> set (surfaces d) \<Longrightarrow> parent (objs w g) = Some (parentDebugContainer d)
          \<and> children (objs w g) = []"
    and "distinct (children (objs w (bones d)))"
    and "\<And>c. c \<in> set (children (objs w (bones d))) \<Longrightarrow>
          c < next_ref w \<and> c \<notin> set (entry_refs spine d)
        \<and> parent (objs w c) = Some (bones d) \<and> children (objs w c) = []"
  using assms unfolding wf_entry_def by simp_all

lemma entry_refs_mem:
  "spine \<in> set (entry_refs spine d)" "parentDebugContainer d \<in> set (entry_refs spine d)"
  "bones d \<in> set (entry_refs spine d)"
  "g \<in> set (surfaces d) \<Longrightarrow> g \<in> set (entry_refs spine d)"
  by (simp_all add: entry_refs_def)

lemma surfaces_entry_at:
  "surfaces (entry_at n) = [n + 2, n + 3, n + 4, n + 5, n + 6, n + 7, n + 8, n + 9, n + 10, n + 11]"
  by (simp add: surfaces_def entry_at_def)

lemma entry_at_simps [simp]:
  "bones (entry_at n) = n + 1" "parentDebugContainer (entry_at n) = n"
  by (simp_all add: entry_at_def)

lemma registerSpine_wf:
  assumes "spine < next_ref w"
  shows "wf_entry (snd (snd (registerSpine this spine w))) spine (entry_at (next_ref w))"
proof -
  define n where "n = next_ref w"
  from registerSpine_result[OF assms, of this] obtain w' where
    r: "registerSpine this spine w = (Normal,
      this\<lparr>registeredSpines := AList.update spine (entry_at n) (registeredSpines this)\<rparr>, w')"
    and n': "next_ref w' = n + 12"
    and o': "objs w' = (\<lambda>r.
         if r = spine then (objs w spine)\<lparr>children := children (objs w spine) @ [n]\<rparr>
         else if r = n
           then blank\<lparr>children := map (\<lambda>k. n + k) [1..<12], parent := Some spine\<rparr>
         else if n < r \<and> r < n + 12 then blank\<lparr>parent := Some n\<rparr>
         else objs w r)"
    unfolding n_def by blast
  have sp: "spine < n" using assms by (simp add: n_def)
  have "[1..<12] = [1, 2, 3, 4, 5, 6, 7, 8, 9, 10, 11 :: nat]" by code_simp
  then have cs: "map (\<lambda>k. n + k) [1..<12] = (n + 1) # surfaces (entry_at n)"
    by (simp add: surfaces_entry_at)
  have refs: "entry_refs spine (entry_at n) =
      [spine, n, n + 1, n + 2, n + 3, n + 4, n + 5, n + 6, n + 7, n + 8, n + 9, n + 10, n + 11]"
    by (simp add: entry_refs_def surfaces_entry_at)
  have "wf_entry w' spine (entry_at n)"
    unfolding wf_entry_def refs
    using sp by (simp add: o'[unfolded cs] n') (simp add: surfaces_entry_at)
  then show ?thesis by (simp add: r n_def)
qed

lemma clearSurfaces_result:
  assumes wf: "wf_entry w spine d"
  shows "\<exists>wc. clearSurfaces d w = (Normal, wc)
     \<and> next_ref wc = next_ref w \<and> console wc = console w
     \<and> objs wc = (\<lambda>r. if r = bones d then (objs w r)\<lparr>children := []\<rparr>
          else if r \<in> set (children (objs w (bones d)))
            then (objs w r)\<lparr>parent := None, destroyed := True, children := []\<rparr>
          else if r \<in> set (surfaces d) then (objs w r)\<lparr>commands := []\<rparr>
          else objs w r)"
proof -
  note W = wf_entryD[OF wf]
  define w1 where "w1 = fold clear (surfaces d) w"
  define cs where "cs = children (objs w (bones d))"
  have o1: "\<And>r. objs w1 r = (if r \<in> set (surfaces d) then (objs w r)\<lparr>commands := []\<rparr> else objs w r)"
    by (simp add: w1_def fold_clear_objs)
  have bs: "bones d \<notin> set (surfaces d)" using W(1) by (simp add: entry_refs_def)
  have c1: "children (objs w1 (bones d)) = cs" by (simp add: o1 cs_def)
  have cl: "clearSurfaces d w = destroy_children_loop (bones d) (length cs) w1"
    unfolding clearSurfaces_def Let_def surfaces_def[symmetric] w1_def[symmetric] c1 ..
  have d: "distinct cs" using W(8) by (simp add: cs_def)
  have ch: "\<forall>c \<in> set cs. c \<noteq> bones d \<and> parent (objs w1 c) = Some (bones d)
      \<and> children (objs w1 c) = []"
    using W(9) by (auto simp: cs_def o1 entry_refs_def)
  have pos: "0 < next_ref w1" using W(2)[OF entry_refs_mem(1)] by (simp add: w1_def)
  from destroy_children_loop_result[OF c1 d ch pos] obtain wc where
    l: "destroy_children_loop (bones d) (length cs) w1 = (Normal, wc)"
    and oc: "objs wc = (\<lambda>r. if r = bones d then (objs w1 (bones d))\<lparr>children := []\<rparr>
                     else if r \<in> set cs
                       then (objs w1 r)\<lparr>parent := None, destroyed := True, children := []\<rparr>
                     else objs w1 r)"
    and nc: "next_ref wc = next_ref w1" "console wc = console w1"
    by blast
  have ns: "\<And>c. c \<in> set cs \<Longrightarrow> c \<notin> set (surfaces d)"
    using W(9) by (auto simp: cs_def entry_refs_def)
  have "objs wc = (\<lambda>r. if r = bones d then (objs w r)\<lparr>children := []\<rparr>
          else if r \<in> set cs
            then (objs w r)\<lparr>parent := None, destroyed := True, children := []\<rparr>
          else if r \<in> set (surfaces d) then (objs w r)\<lparr>commands := []\<rparr>
          else objs w r)"
    using bs ns by (auto simp: oc o1 fun_eq_iff)
  then show ?thesis
    unfolding cl cs_def[symmetric] using l nc by (simp add: w1_def)
qed

subsection \<open>The remaining routines\<close>

lemma drawRegionAttachmentsFunc_trace:
  "\<exists>cs oc k. fst ` set cs \<subseteq> {regionAttachmentsShape d} \<and> k \<le> length (skeleton_slots sk) \<and>
     (oc = Normal \<longrightarrow> k = length (skeleton_slots sk)) \<and>
     (\<forall>v. skeleton (objs v spine) = sk \<longrightarrow>
        drawRegionAttachmentsFunc this spine d width v =
          (oc, draws cs (set_slots spine
             (map refresh_offset (take k (skeleton_slots sk)) @ drop k (skeleton_slots sk)) v)))"
proof -
  let ?shape = "regionAttachmentsShape d"
  let ?ls = "LineStyle width (regionAttachmentsColor this) 1"
  from region_loop[of "[]" 0 ?shape "skeleton_slots sk" spine] obtain cs oc k where
    c: "fst ` set cs \<subseteq> {?shape}" and k: "k \<le> length (skeleton_slots sk)"
      "oc = Normal \<longrightarrow> k = length (skeleton_slots sk)"
    and e: "\<And>w. skeleton_slots (skeleton (objs w spine)) = skeleton_slots sk \<Longrightarrow>
        drawRegionAttachments_loop spine ?shape 0 (skeleton_slots sk) w =
          (oc, draws cs (set_slots spine
             (map refresh_offset (take k (skeleton_slots sk)) @ drop k (skeleton_slots sk)) w))"
    by auto
  show ?thesis
  proof (rule exI[of _ "(?shape, ?ls) # cs"], rule exI[of _ oc], rule exI[of _ k],
      intro conjI allI impI)
    show "fst ` set ((?shape, ?ls) # cs) \<subseteq> {?shape}" using c by simp
    show "k \<le> length (skeleton_slots sk)" by (rule k)
    show "k = length (skeleton_slots sk)" if "oc = Normal" using k that by simp
    fix v :: world
    assume v: "skeleton (objs v spine) = sk"
    have "skeleton_slots (skeleton (objs (draw ?shape ?ls v) spine)) = skeleton_slots sk"
      using v by auto
    from e[OF this] show "drawRegionAttachmentsFunc this spine d width v =
          (oc, draws ((?shape, ?ls) # cs) (set_slots spine
             (map refresh_offset (take k (skeleton_slots sk)) @ drop k (skeleton_slots sk)) v))"
      using v by (simp add: drawRegionAttachmentsFunc_def Let_def set_slots_draw)
  qed
qed

lemma paints_mesh_loop_no_hull:
  assumes "trianglesLine \<in> S" "paints S f"
  shows "paints S (\<lambda>w. drawMesh_loop meshTriangles False trianglesLine hullLine slots (f w))"
  using assms(2)
proof (induction slots arbitrary: f)
  case Nil
  then show ?case by simp
next
  case (Cons slot rest)
  show ?case
    apply (simp only: drawMesh_loop.simps Let_def simp_thms if_False)
    apply (intro Cons paints_k_if paints_k_case_option paints_k_triangles_loop
        paints_k_hull_loop assms(1))
    done
qed

lemma paints_mesh_loop_no_triangles:
  assumes "hullLine \<in> S" "paints S f"
  shows "paints S (\<lambda>w. drawMesh_loop False meshHull trianglesLine hullLine slots (f w))"
  using assms(2)
proof (induction slots arbitrary: f)
  case Nil
  then show ?case by simp
next
  case (Cons slot rest)
  show ?case
    apply (simp only: drawMesh_loop.simps Let_def simp_thms if_False)
    apply (intro Cons paints_k_if paints_k_case_option paints_k_triangles_loop
        paints_k_hull_loop assms(1))
    done
qed

text \<open>With the hull toggle off the hull surface receives its line style and nothing else.\<close>

lemma drawMeshFunc_no_hull:
  assumes "\<not> drawMeshHull this" "meshHullLine d \<noteq> meshTrianglesLine d"
  shows "commands (objs (drawMeshHullAndMeshTriangles this spine d width w) (meshHullLine d))
     = commands (objs w (meshHullLine d)) @ [LineStyle width (meshHullColor this) 1]"
proof -
  have P: "paints {meshTrianglesLine d}
     (\<lambda>v. drawMesh_loop (drawMeshTriangles this) False
        (meshTrianglesLine d) (meshHullLine d) (skeleton_slots (skeleton (objs w spine)))
        (draw (meshTrianglesLine d) (LineStyle width (meshTrianglesColor this) 1) v))"
    by (intro paints_mesh_loop_no_hull paints_intros) simp_all
  show ?thesis
  proof (rule paintsE[OF P])
    fix cs
    assume c: "fst ` set cs \<subseteq> {meshTrianglesLine d}"
      and e: "\<And>v. drawMesh_loop (drawMeshTriangles this) False
        (meshTrianglesLine d) (meshHullLine d) (skeleton_slots (skeleton (objs w spine)))
        (draw (meshTrianglesLine d) (LineStyle width (meshTrianglesColor this) 1) v) = draws cs v"
    have "calls_on (meshHullLine d) cs = []"
      using c assms(2) by (intro calls_on_outside[of cs "{meshTrianglesLine d}"]) simp_all
    then show ?thesis
      using assms by (simp add: drawMeshHullAndMeshTriangles_def Let_def e draws_objs)
  qed
qed

lemma drawMeshFunc_no_triangles:
  assumes "\<not> drawMeshTriangles this" "meshHullLine d \<noteq> meshTrianglesLine d"
  shows "commands (objs (drawMeshHullAndMeshTriangles this spine d width w) (meshTrianglesLine d))
     = commands (objs w (meshTrianglesLine d)) @ [LineStyle width (meshTrianglesColor this) 1]"
proof -
  have P: "paints {meshHullLine d}
     (\<lambda>v. drawMesh_loop False (drawMeshHull this)
        (meshTrianglesLine d) (meshHullLine d) (skeleton_slots (skeleton (objs w spine))) v)"
    by (intro paints_mesh_loop_no_triangles paints_intros) simp_all
  show ?thesis
  proof (rule paintsE[OF P])
    fix cs
    assume c: "fst ` set cs \<subseteq> {meshHullLine d}"
      and e: "\<And>v. drawMesh_loop False (drawMeshHull this)
        (meshTrianglesLine d) (meshHullLine d) (skeleton_slots (skeleton (objs w spine))) v
         = draws cs v"
    have "calls_on (meshTrianglesLine d) cs = []"
      using c assms(2) by (intro calls_on_outside[of cs "{meshHullLine d}"]) simp_all
    then show ?thesis
      using assms by (simp add: drawMeshHullAndMeshTriangles_def Let_def e draws_objs)
  qed
qed

subsection \<open>unregisterSpine on a well-formed entry\<close>

lemma unregisterSpine_result:
  assumes reg: "map_of (registeredSpines this) spine = Some d"
    and wf: "wf_entry w spine d"
  shows "\<exists>w'. unregisterSpine this spine w =
       (Normal, this\<lparr>registeredSpines := AList.delete spine (registeredSpines this)\<rparr>, w')
     \<and> objs w' = (\<lambda>x.
          if x = spine
            then (objs w spine)\<lparr>children := remove1 (parentDebugContainer d) (children (objs w spine))\<rparr>
          else if x = parentDebugContainer d \<or> x = bones d \<or> x \<in> set (surfaces d)
               \<or> x \<in> set (children (objs w (bones d)))
            then (objs w x)\<lparr>parent := None, destroyed := True, children := []\<rparr>
          else objs w x)
     \<and> next_ref w' = next_ref w \<and> console w' = console w"
proof -
  note W = wf_entryD[OF wf]
  define pdc where "pdc = parentDebugContainer d"
  define bn where "bn = bones d"
  define gps where "gps = children (objs w bn)"
  define cs where "cs = bn # surfaces d"
  have refs: "distinct (spine # pdc # bn # surfaces d)"
    using W(1) by (simp add: entry_refs_def pdc_def bn_def)
  have lt: "spine < next_ref w" "pdc < next_ref w" "bn < next_ref w"
    using W(2) by (simp_all add: entry_refs_def pdc_def bn_def)
  have "spine \<noteq> pdc" "spine \<noteq> bn" "pdc \<noteq> bn" using refs by auto
  with lt have "3 \<le> next_ref w" by arith
  then obtain m where m: "next_ref w = Suc (Suc (Suc m))"
    by (metis add_2_eq_Suc' le_Suc_ex numeral_3_eq_3 plus_1_eq_Suc add_Suc)
  have gp: "\<And>c. c \<in> set gps \<Longrightarrow> c \<notin> set (spine # pdc # bn # surfaces d)
      \<and> parent (objs w c) = Some bn \<and> children (objs w c) = []"
    using W(9) by (simp add: gps_def bn_def entry_refs_def pdc_def)
  define w1 where "w1 = removeChild spine pdc w"
  define w2 where "w2 = upd pdc (\<lambda>ob. ob\<lparr>parent := None, destroyed := True\<rparr>) w1"
  define w3 where "w3 = fold (\<lambda>c. upd c (\<lambda>ob. ob\<lparr>parent := None\<rparr>)) cs w2"
  define w4 where "w4 = upd pdc (\<lambda>ob. ob\<lparr>children := []\<rparr>) w3"
  have o1: "objs w1 = (objs w)(pdc := (objs w pdc)\<lparr>parent := None\<rparr>,
      spine := (objs w spine)\<lparr>children := remove1 pdc (children (objs w spine))\<rparr>)"
    using W(3) \<open>spine \<noteq> pdc\<close> by (simp add: w1_def removeChild_def pdc_def)
  have c2: "children (objs w2 pdc) = cs"
    using W(5) \<open>spine \<noteq> pdc\<close> by (simp add: w2_def o1 cs_def pdc_def bn_def)
  have c1: "children (objs w1 pdc) = cs"
    using W(5) \<open>spine \<noteq> pdc\<close> by (simp add: o1 cs_def pdc_def bn_def)
  have step: "destroy (Suc (Suc (Suc m))) pdc w = destroy_all (Suc (Suc m)) cs w4"
    using W(4) c1
    by (simp add: Let_def pdc_def[symmetric] w1_def[symmetric] w2_def[symmetric]
        w3_def w4_def del: destroy_all.simps)
  note f = fold_orphan[of cs w2, folded w3_def]
  have pcs: "pdc \<notin> set cs" "spine \<notin> set cs" using refs by (auto simp: cs_def)
  have o4: "objs w4 = (\<lambda>x.
      if x = spine then (objs w spine)\<lparr>children := remove1 pdc (children (objs w spine))\<rparr>
      else if x = pdc then (objs w pdc)\<lparr>parent := None, destroyed := True, children := []\<rparr>
      else if x \<in> set cs then (objs w x)\<lparr>parent := None\<rparr> else objs w x)"
    using pcs \<open>spine \<noteq> pdc\<close> by (auto simp: w4_def f w2_def o1 fun_eq_iff)
  have n4: "next_ref w4 = next_ref w" "console w4 = console w"
    by (simp_all add: w4_def f w2_def w1_def)
  have b4: "parent (objs w4 bn) = None" "children (objs w4 bn) = gps"
    using refs by (auto simp: o4 cs_def gps_def)
  have g4: "distinct gps" "bn \<notin> set gps" "\<forall>c \<in> set gps. children (objs w4 c) = []"
    using W(8) gp by (auto simp: gps_def bn_def o4 cs_def)
  from destroy_flat_container[OF b4 g4, of m] obtain w5 where
    d5: "destroy (Suc (Suc m)) bn w4 = Some w5"
    and o5: "objs w5 = (\<lambda>x. if x = bn \<or> x \<in> set gps
                       then (objs w4 x)\<lparr>parent := None, destroyed := True, children := []\<rparr>
                     else objs w4 x)"
    and n5: "next_ref w5 = next_ref w4" "console w5 = console w4"
    by blast
  have s5: "distinct (surfaces d)"
    "\<forall>c \<in> set (surfaces d). parent (objs w5 c) = None \<and> children (objs w5 c) = []"
    using refs gp W(7) by (auto simp: o5 o4 cs_def)
  from destroy_all_orphans[OF s5, of "Suc m"] obtain w' where
    d': "destroy_all (Suc (Suc m)) (surfaces d) w5 = Some w'"
    and o': "objs w' = (\<lambda>r. if r \<in> set (surfaces d)
                       then (objs w5 r)\<lparr>parent := None, destroyed := True, children := []\<rparr>
                     else objs w5 r)"
    and n': "next_ref w' = next_ref w5" "console w' = console w5"
    by blast
  have dd: "destroy (next_ref w) pdc w = Some w'"
    unfolding m step cs_def using d5 d' by (simp del: destroy.simps)
  have "objs w' = (\<lambda>x.
          if x = spine
            then (objs w spine)\<lparr>children := remove1 pdc (children (objs w spine))\<rparr>
          else if x = pdc \<or> x = bn \<or> x \<in> set (surfaces d) \<or> x \<in> set gps
            then (objs w x)\<lparr>parent := None, destroyed := True, children := []\<rparr>
          else objs w x)"
    using refs gp by (auto simp: o' o5 o4 cs_def fun_eq_iff)
  then show ?thesis
    using reg dd n' n5 n4 unfolding pdc_def bn_def gps_def
    by (simp add: unregisterSpine_def)
qed

subsection \<open>The drawing part of a frame as one sequence of calls\<close>

lemma thenDo_Normal [simp]: "thenDo (Normal, w) f = f w"
  by (simp add: thenDo_def)

lemma thenDo_failure: "oc \<noteq> Normal \<Longrightarrow> thenDo (oc, w) f = (oc, w)"
  by (cases oc) (simp_all add: thenDo_def)

lemma surfaces_mem:
  "skeletonXY d \<in> set (surfaces d)" "regionAttachmentsShape d \<in> set (surfaces d)"
  "meshTrianglesLine d \<in> set (surfaces d)" "meshHullLine d \<in> set (surfaces d)"
  "clippingPolygon d \<in> set (surfaces d)" "boundingBoxesRect d \<in> set (surfaces d)"
  "boundingBoxesCircle d \<in> set (surfaces d)" "boundingBoxesPolygon d \<in> set (surfaces d)"
  "pathsCurve d \<in> set (surfaces d)" "pathsLine d \<in> set (surfaces d)"
  by (simp_all add: surfaces_def)

lemma drawCategories_form:
  fixes this spine d wc
  defines "scale \<equiv> scale_of (objs wc spine)"
  defines "width \<equiv> lineWidth this / scale"
  defines "w3 \<equiv> (if drawBones this then drawBonesFunc this spine d width scale wc else wc)"
  defines "sk \<equiv> skeleton (objs w3 spine)"
  defines "slots \<equiv> skeleton_slots sk"
  shows "\<exists>csP csB ocB csC csM csR ocR k T k'.
     fst ` set csP \<subseteq> {pathsCurve d, pathsLine d}
   \<and> (\<forall>v. skeleton (objs v spine) = sk \<longrightarrow> drawPathsFunc this spine d width v = draws csP v)
   \<and> fst ` set csB \<subseteq> {boundingBoxesRect d, boundingBoxesCircle d, boundingBoxesPolygon d}
   \<and> (\<forall>v. skeleton (objs v spine) = sk \<longrightarrow>
          drawBoundingBoxesFunc this spine d width v = (ocB, draws csB v))
   \<and> fst ` set csC \<subseteq> {clippingPolygon d}
   \<and> (\<forall>v. skeleton (objs v spine) = sk \<longrightarrow> drawClippingFunc this spine d width v = draws csC v)
   \<and> fst ` set csM \<subseteq> {meshHullLine d, meshTrianglesLine d}
   \<and> (\<forall>v. skeleton (objs v spine) = sk \<longrightarrow>
          drawMeshHullAndMeshTriangles this spine d width v = draws csM v)
   \<and> fst ` set csR \<subseteq> {regionAttachmentsShape d}
   \<and> (\<forall>v. skeleton (objs v spine) = sk \<longrightarrow>
          drawRegionAttachmentsFunc this spine d width v =
            (ocR, draws csR (set_slots spine
               (map refresh_offset (take k slots) @ drop k slots) v)))
   \<and> k \<le> length slots \<and> (ocR = Normal \<longrightarrow> k = length slots)
   \<and> drawCategories this spine d wc =
        (fst (drawCategories this spine d wc),
         draws T (set_slots spine (map refresh_offset (take k' slots) @ drop k' slots) w3))
   \<and> fst ` set T \<subseteq> set (surfaces d) \<and> k' \<le> length slots
   \<and> (\<not> drawRegionAttachments this \<longrightarrow> k' = 0)
   \<and> (fst (drawCategories this spine d wc) = Normal \<longrightarrow>
        T = (if drawPaths this then csP else []) @ (if drawBoundingBoxes this then csB else [])
          @ (if drawClipping this then csC else [])
          @ (if drawMeshHull this \<or> drawMeshTriangles this then csM else [])
          @ (if drawRegionAttachments this then csR else [])
      \<and> k' = (if drawRegionAttachments this then length slots else 0))"
proof -
  obtain csP where P: "fst ` set csP \<subseteq> {pathsCurve d, pathsLine d}"
    "\<And>v. skeleton (objs v spine) = sk \<Longrightarrow> drawPathsFunc this spine d width v = draws csP v"
    using paints_drawPathsFunc[of d spine sk this width] by auto
  obtain csB ocB where
    B: "fst ` set csB \<subseteq> {boundingBoxesRect d, boundingBoxesCircle d, boundingBoxesPolygon d}"
    "\<And>v. skeleton (objs v spine) = sk \<Longrightarrow>
          drawBoundingBoxesFunc this spine d width v = (ocB, draws csB v)"
    using paints_drawBoundingBoxesFunc[of d spine sk this width] by auto
  obtain csC where C: "fst ` set csC \<subseteq> {clippingPolygon d}"
    "\<And>v. skeleton (objs v spine) = sk \<Longrightarrow> drawClippingFunc this spine d width v = draws csC v"
    using paints_drawClippingFunc[of d spine sk this width] by auto
  obtain csM where M: "fst ` set csM \<subseteq> {meshHullLine d, meshTrianglesLine d}"
    "\<And>v. skeleton (objs v spine) = sk \<Longrightarrow>
          drawMeshHullAndMeshTriangles this spine d width v = draws csM v"
    using paints_drawMeshFunc[of d spine sk this width] by auto
  obtain csR ocR k where R: "fst ` set csR \<subseteq> {regionAttachmentsShape d}"
    "\<And>v. skeleton (objs v spine) = sk \<Longrightarrow>
          drawRegionAttachmentsFunc this spine d width v =
            (ocR, draws csR (set_slots spine
               (map refresh_offset (take k slots) @ drop k slots) v))"
    "k \<le> length slots" "ocR = Normal \<longrightarrow> k = length slots"
    using drawRegionAttachmentsFunc_trace[of d sk spine this width] unfolding slots_def by blast
  define P' where "P' = (if drawPaths this then csP else [])"
  define B' where "B' = (if drawBoundingBoxes this then csB else [])"
  define ocB' where "ocB' = (if drawBoundingBoxes this then ocB else Normal)"
  define C' where "C' = (if drawClipping this then csC else [])"
  define M' where "M' = (if drawMeshHull this \<or> drawMeshTriangles this then csM else [])"
  define R' where "R' = (if drawRegionAttachments this then csR else [])"
  define w4 where "w4 = draws P' w3"
  have sk3: "skeleton (objs w3 spine) = sk" by (simp add: sk_def)
  have same: "set_slots spine slots v = v" if "skeleton (objs v spine) = sk" for v
    using that by (intro set_slots_same) (simp add: slots_def)
  have sub: "fst ` set P' \<subseteq> set (surfaces d)" "fst ` set B' \<subseteq> set (surfaces d)"
    "fst ` set C' \<subseteq> set (surfaces d)" "fst ` set M' \<subseteq> set (surfaces d)"
    "fst ` set R' \<subseteq> set (surfaces d)"
    using P(1) B(1) C(1) M(1) R(1) surfaces_mem[of d]
    by (auto simp: P'_def B'_def C'_def M'_def R'_def)
  have e4: "(if drawPaths this then drawPathsFunc this spine d width w3 else w3) = w4"
    by (simp add: w4_def P'_def P(2) sk3)
  have sk4: "skeleton (objs w4 spine) = sk" by (simp add: w4_def sk3)
  have eB: "(if drawBoundingBoxes this then drawBoundingBoxesFunc this spine d width w4
             else (Normal, w4)) = (ocB', draws B' w4)"
    by (simp add: ocB'_def B'_def B(2) sk4)
  have dc: "drawCategories this spine d wc =
      thenDo (ocB', draws B' w4) (\<lambda>w5.
           let w6 = (if drawClipping this
                     then drawClippingFunc this spine d width w5 else w5);
               w7 = (if drawMeshHull this \<or> drawMeshTriangles this
                     then drawMeshHullAndMeshTriangles this spine d width w6 else w6)
           in if drawRegionAttachments this
              then drawRegionAttachmentsFunc this spine d width w7
              else (Normal, w7))"
    unfolding drawCategories_def Let_def scale_def[symmetric] width_def[symmetric]
      w3_def[symmetric] e4 eB ..
  show ?thesis
  proof (cases "ocB' = Normal")
    case False
    have res: "drawCategories this spine d wc = (ocB', draws (P' @ B') w3)"
      unfolding dc by (simp add: thenDo_failure[OF False] w4_def draws_append)
    show ?thesis
      apply (rule exI[of _ csP], rule exI[of _ csB], rule exI[of _ ocB], rule exI[of _ csC],
          rule exI[of _ csM], rule exI[of _ csR], rule exI[of _ ocR], rule exI[of _ k],
          rule exI[of _ "P' @ B'"], rule exI[of _ 0])
      using P B C M R sub False
      apply (simp add: res same[OF sk3] image_Un)
      done
  next
    case True
    define w5 where "w5 = draws B' w4"
    define w6 where "w6 = draws C' w5"
    define w7 where "w7 = draws M' w6"
    have sk5: "skeleton (objs w5 spine) = sk" by (simp add: w5_def sk4)
    have e6: "(if drawClipping this then drawClippingFunc this spine d width w5 else w5) = w6"
      by (simp add: w6_def C'_def C(2) sk5)
    have sk6: "skeleton (objs w6 spine) = sk" by (simp add: w6_def sk5)
    have e7: "(if drawMeshHull this \<or> drawMeshTriangles this
                then drawMeshHullAndMeshTriangles this spine d width w6 else w6) = w7"
      by (simp add: w7_def M'_def M(2) sk6)
    have sk7: "skeleton (objs w7 spine) = sk" by (simp add: w7_def sk6)
    define k' where "k' = (if drawRegionAttachments this then k else 0)"
    define ocR' where "ocR' = (if drawRegionAttachments this then ocR else Normal)"
    have w7: "w7 = draws (P' @ B' @ C' @ M') w3"
      by (simp add: w7_def w6_def w5_def w4_def draws_append)
    have r7: "(if drawRegionAttachments this
                then drawRegionAttachmentsFunc this spine d width w7 else (Normal, w7))
        = (ocR', draws R' (set_slots spine
              (map refresh_offset (take k' slots) @ drop k' slots) w7))"
      by (simp add: R(2)[OF sk7] ocR'_def k'_def R'_def same[OF sk7])
    have res: "drawCategories this spine d wc =
        (ocR', draws ((P' @ B' @ C' @ M') @ R')
           (set_slots spine (map refresh_offset (take k' slots) @ drop k' slots) w3))"
      unfolding dc True thenDo_Normal w5_def[symmetric] Let_def e6 e7 r7
      by (simp add: w7 draws_append set_slots_draws)
    show ?thesis
      apply (rule exI[of _ csP], rule exI[of _ csB], rule exI[of _ ocB], rule exI[of _ csC],
          rule exI[of _ csM], rule exI[of _ csR], rule exI[of _ ocR], rule exI[of _ k],
          rule exI[of _ "(P' @ B' @ C' @ M') @ R'"], rule exI[of _ k'])
      using P B C M R sub
      apply (simp add: res image_Un)
      apply (simp add: k'_def ocR'_def P'_def B'_def C'_def M'_def R'_def)
      done
  qed
qed

section \<open>Properties\<close>

subsection \<open>The registration map\<close>

lemma registerSpine_map:
  "registeredSpines (fst (snd (registerSpine this spine w)))
     = AList.update spine (entry_at (next_ref w)) (registeredSpines this)"
  by (simp add: reg_phase1)

lemma unregisterSpine_map:
  "registeredSpines (fst (snd (unregisterSpine this spine w))) = registeredSpines this
   \<or> registeredSpines (fst (snd (unregisterSpine this spine w)))
        = AList.delete spine (registeredSpines this)"
  by (simp add: unregisterSpine_def Let_def split: option.splits)

lemma renderDebug_map:
  "registeredSpines (fst (snd (renderDebug this spine w))) = registeredSpines this
   \<or> registeredSpines (fst (snd (renderDebug this spine w)))
        = AList.update spine (entry_at (next_ref w)) (registeredSpines this)"
  by (simp add: renderDebug_def reg_phase1 Let_def split: option.splits prod.splits)

lemma perform_distinct:
  "distinct (map fst (registeredSpines (fst st))) \<Longrightarrow>
   distinct (map fst (registeredSpines (fst (perform c st))))"
proof (cases st)
  case (Pair this w)
  assume d: "distinct (map fst (registeredSpines (fst st)))"
  show ?thesis
  proof (cases c)
    case (RegisterSpine spine)
    then show ?thesis using d Pair by (simp add: registerSpine_map distinct_update)
  next
    case (UnregisterSpine spine)
    then show ?thesis
      using d Pair unregisterSpine_map[of this spine w] by (auto simp: distinct_delete)
  next
    case (RenderDebug spine)
    then show ?thesis
      using d Pair renderDebug_map[of this spine w] by (auto simp: distinct_update)
  qed
qed

lemma perform_all_distinct:
  "distinct (map fst (registeredSpines (fst st))) \<Longrightarrow>
   distinct (map fst (registeredSpines (fst (perform_all calls st))))"
  unfolding perform_all_def
  by (induction calls arbitrary: st) (simp_all add: perform_distinct)

lemma distinct_keys_count:
  "distinct (map fst m) \<Longrightarrow> length (filter (\<lambda>e. fst e = k) m) \<le> 1"
  by (induction m) (auto simp: filter_empty_conv image_iff)

text \<open>
  C7. One registration per spine: starting from a renderer whose map is empty, after any
  sequence of \<^verbatim>\<open>registerSpine\<close>, \<^verbatim>\<open>unregisterSpine\<close> and \<^verbatim>\<open>renderDebug\<close> calls (on any
  spines, whatever their outcomes), the registration map holds at most one entry for each
  spine.
\<close>

theorem one_registration_per_spine:
  "length (filter (\<lambda>e. fst e = spine)
     (registeredSpines (fst (perform_all calls (this\<lparr>registeredSpines := []\<rparr>, w))))) \<le> 1"
  by (rule distinct_keys_count, rule perform_all_distinct) simp

theorem one_registration_per_spine_witness:
  "length (filter (\<lambda>e. fst e = 0)
     (registeredSpines (fst (perform_all
        [RegisterSpine 0, RegisterSpine 0, RenderDebug 1, UnregisterSpine 0, RenderDebug 0]
        (new_SpineDebugRenderer, example_world))))) \<le> 1"
  using one_registration_per_spine[of 0
      "[RegisterSpine 0, RegisterSpine 0, RenderDebug 1, UnregisterSpine 0, RenderDebug 0]"
      new_SpineDebugRenderer example_world]
  by (simp add: new_SpineDebugRenderer_def)

subsection \<open>The drawDebug field\<close>

lemma drawPolygon_drawDebug:
  "drawPolygon (this\<lparr>drawDebug := b\<rparr>) d width pv count w = drawPolygon this d width pv count w"
  by (simp add: drawPolygon_def Let_def)

lemma drawBoundingBoxes_loop_drawDebug:
  "drawBoundingBoxes_loop (this\<lparr>drawDebug := b\<rparr>) d width ps w
     = drawBoundingBoxes_loop this d width ps w"
  by (induction ps arbitrary: w)
    (simp_all add: drawPolygon_drawDebug split: prod.splits outcome.splits)

lemma drawCategories_drawDebug:
  "drawCategories (this\<lparr>drawDebug := b\<rparr>) spine d w = drawCategories this spine d w"
  by (simp add: drawCategories_def drawBonesFunc_def drawPathsFunc_def
      drawBoundingBoxesFunc_def drawClippingFunc_def drawMeshHullAndMeshTriangles_def
      drawRegionAttachmentsFunc_def drawBoundingBoxes_loop_drawDebug Let_def
      cong: if_cong)

lemma drawCategories_drawDebug_fun:
  "drawCategories (this\<lparr>drawDebug := b\<rparr>) spine d = drawCategories this spine d"
  by (rule ext) (rule drawCategories_drawDebug)

text \<open>
  C9. The field \<open>drawDebug\<close> is never read: with the field set to any value \<open>b\<close>, each of
  \<^verbatim>\<open>renderDebug\<close>, \<^verbatim>\<open>registerSpine\<close> and \<^verbatim>\<open>unregisterSpine\<close> has the same outcome and leaves the
  same scene graph and the same registration map as with the field's former value; the
  resulting renderer differs in that field alone.
\<close>

theorem drawDebug_has_no_effect:
  "renderDebug (this\<lparr>drawDebug := b\<rparr>) spine w =
     (case renderDebug this spine w of (res, this', w') \<Rightarrow> (res, this'\<lparr>drawDebug := b\<rparr>, w'))
   \<and> registerSpine (this\<lparr>drawDebug := b\<rparr>) spine w =
     (case registerSpine this spine w of (res, this', w') \<Rightarrow> (res, this'\<lparr>drawDebug := b\<rparr>, w'))
   \<and> unregisterSpine (this\<lparr>drawDebug := b\<rparr>) spine w =
     (case unregisterSpine this spine w of (res, this', w') \<Rightarrow> (res, this'\<lparr>drawDebug := b\<rparr>, w'))"
proof (intro conjI)
  show r: "registerSpine (this\<lparr>drawDebug := b\<rparr>) spine w =
     (case registerSpine this spine w of (res, this', w') \<Rightarrow> (res, this'\<lparr>drawDebug := b\<rparr>, w'))"
    by (simp add: reg_phase1)
  show "unregisterSpine (this\<lparr>drawDebug := b\<rparr>) spine w =
     (case unregisterSpine this spine w of (res, this', w') \<Rightarrow> (res, this'\<lparr>drawDebug := b\<rparr>, w'))"
    by (simp add: unregisterSpine_def Let_def split: option.splits)
  show "renderDebug (this\<lparr>drawDebug := b\<rparr>) spine w =
     (case renderDebug this spine w of (res, this', w') \<Rightarrow> (res, this'\<lparr>drawDebug := b\<rparr>, w'))"
  proof (cases "registerSpine this spine w")
    case (fields res1 this1 w1)
    have rr: "registerSpine (this\<lparr>drawDebug := b\<rparr>) spine w = (res1, this1\<lparr>drawDebug := b\<rparr>, w1)"
      by (simp add: r fields)
    show ?thesis
      by (simp add: renderDebug_def rr fields renderFrame_def drawCategories_drawDebug_fun Let_def
          split: option.splits prod.splits)
  qed
qed

theorem drawDebug_has_no_effect_witness:
  "renderDebug (new_SpineDebugRenderer\<lparr>drawDebug := False\<rparr>) 0 example_world =
     (case renderDebug new_SpineDebugRenderer 0 example_world of
        (res, this', w') \<Rightarrow> (res, this'\<lparr>drawDebug := False\<rparr>, w'))
   \<and> registerSpine (new_SpineDebugRenderer\<lparr>drawDebug := False\<rparr>) 0 example_world =
     (case registerSpine new_SpineDebugRenderer 0 example_world of
        (res, this', w') \<Rightarrow> (res, this'\<lparr>drawDebug := False\<rparr>, w'))
   \<and> unregisterSpine (new_SpineDebugRenderer\<lparr>drawDebug := False\<rparr>) 0 example_world =
     (case unregisterSpine new_SpineDebugRenderer 0 example_world of
        (res, this', w') \<Rightarrow> (res, this'\<lparr>drawDebug := False\<rparr>, w'))"
  by (rule drawDebug_has_no_effect)

subsection \<open>Unregistering a spine that is not registered\<close>

text \<open>
  C1. The claim: unregistering a spine that is not in the registration map logs a warning and
  then does nothing, without throwing. The code logs the warning and goes on to read
  \<^verbatim>\<open>parentDebugContainer\<close> from the \<^verbatim>\<open>undefined\<close> result of \<^verbatim>\<open>get\<close>: on a renderer whose
  map is empty, for every spine, the call ends in a TypeError (the map and the scene graph
  are as before, with the warning on the console).
\<close>

theorem unregisterSpine_unregistered_throws:
  "unregisterSpine (this\<lparr>registeredSpines := []\<rparr>) spine w =
     (Throw TypeError, this\<lparr>registeredSpines := []\<rparr>,
      warn ''SpineDebugRenderer.unregisterSpine() - spine is not registered, can't unregister!'' w)"
  by (simp add: unregisterSpine_def)

end
